theory Spec2Isabelle
  imports Complex_Main
begin

section \<open>The virtualised list view of src/ListView/index.ts\<close>

text \<open>
  The class \<^verbatim>\<open>ListView<T>\<close> keeps a data array \<^verbatim>\<open>sourceList\<close>, a container element
  whose first child is the runway (the element that stretches the scrollable area) and
  whose further children are the list item nodes, and a small cache of measured sizes.

  Conventions of the embedding.
  \<^item> Pixel quantities and indices are \<^typ>\<open>int\<close>. JavaScript numbers are doubles; the
    embedding covers integral values. Where \<^verbatim>\<open>itemHeight\<close> is \<open>0\<close> the source
    computes with \<^verbatim>\<open>Infinity\<close> and \<^verbatim>\<open>NaN\<close>; the embedding stops there with the
    error \<open>NonFinite\<close>.
  \<^item> An operation returns a pair: how it completed (\<open>Inr\<close> the returned value, \<open>Inl\<close> the
    exception thrown) and the state it leaves. A JavaScript exception does not undo the
    writes made before it, so the state is kept in both cases.
  \<^item> The layout values the code reads from the DOM (\<^verbatim>\<open>container.clientHeight\<close>,
    \<^verbatim>\<open>container.scrollTop\<close>, \<^verbatim>\<open>runway.clientHeight\<close>, \<^verbatim>\<open>runway.clientWidth\<close>)
    are fields of the state; the environment sets them between operations.
  \<^item> The writes to the DOM and the calls of the two configured callbacks are recorded, in
    order, in the field \<open>effects\<close>. The callbacks are opaque: \<^verbatim>\<open>createHandler\<close> is
    taken to return a new element on each call, \<^verbatim>\<open>renderHandler\<close> to leave the list
    view's own state alone.
  \<^item> The scrollbar, the event bus and the methods that only attach or detach listeners
    (\<^verbatim>\<open>invoke\<close>, \<^verbatim>\<open>dispose\<close>, \<^verbatim>\<open>updateOptions\<close>, \<^verbatim>\<open>onClick\<close>) are not part of
    the embedding.
\<close>

subsection \<open>Values of the data array\<close>

datatype jsval = Undefined | Null | Bool bool | Num int | Str string | Obj nat

text \<open>JavaScript's \<^verbatim>\<open>!!data\<close>.\<close>

fun truthy :: "jsval \<Rightarrow> bool" where
  "truthy Undefined = False"
| "truthy Null = False"
| "truthy (Bool b) = b"
| "truthy (Num n) = (n \<noteq> 0)"
| "truthy (Str s) = (s \<noteq> [])"
| "truthy (Obj a) = True"

subsection \<open>Array primitives\<close>

text \<open>Reading \<^verbatim>\<open>xs[i]\<close> for a loop counter \<open>i\<close>: \<^verbatim>\<open>undefined\<close> beyond the end.\<close>

definition js_index :: "jsval list \<Rightarrow> nat \<Rightarrow> jsval" where
  "js_index xs i = (if i < length xs then xs ! i else Undefined)"

text \<open>The relative index rule shared by \<^verbatim>\<open>slice\<close> and \<^verbatim>\<open>splice\<close>: a negative index
  counts from the end, and the result is clamped to \<open>[0, len]\<close>.\<close>

definition js_relative :: "int \<Rightarrow> int \<Rightarrow> int" where
  "js_relative len i = (if i < 0 then max (len + i) 0 else min i len)"

definition js_slice :: "'a list \<Rightarrow> int \<Rightarrow> int \<Rightarrow> 'a list" where
  "js_slice xs start end' =
     (let len = int (length xs);
          k = js_relative len start;
          final = js_relative len end'
      in take (nat (final - k)) (drop (nat k) xs))"

text \<open>\<^verbatim>\<open>xs.splice(start, deleteCount, ...items)\<close>: the removed elements and the new array.\<close>

definition js_splice :: "'a list \<Rightarrow> int \<Rightarrow> int \<Rightarrow> 'a list \<Rightarrow> 'a list \<times> 'a list" where
  "js_splice xs start deleteCount items =
     (let len = int (length xs);
          actualStart = js_relative len start;
          actualDeleteCount = min (max deleteCount 0) (len - actualStart)
      in (take (nat actualDeleteCount) (drop (nat actualStart) xs),
          take (nat actualStart) xs @ items @ drop (nat (actualStart + actualDeleteCount)) xs))"

subsection \<open>Number primitives\<close>

text \<open>\<^verbatim>\<open>Math.ceil(a / b)\<close> and \<^verbatim>\<open>Math.floor(a / b)\<close> on integers, \<open>b \<noteq> 0\<close>; and the
  remainder \<^verbatim>\<open>a % b\<close>, whose sign is the sign of \<open>a\<close>.\<close>

definition js_ceil_div :: "int \<Rightarrow> int \<Rightarrow> int" where
  "js_ceil_div a b = - ((- a) div b)"

definition js_floor_div :: "int \<Rightarrow> int \<Rightarrow> int" where
  "js_floor_div a b = a div b"

definition js_rem :: "int \<Rightarrow> int \<Rightarrow> int" where
  "js_rem a b = sgn a * (\<bar>a\<bar> mod \<bar>b\<bar>)"

subsection \<open>State\<close>

definition DSURPLUS_COUNT :: int where
  "DSURPLUS_COUNT = 0"

definition RUNWAY_COUNT :: nat where
  "RUNWAY_COUNT = 1"

datatype error = TypeError | NonFinite

text \<open>An element: its identity, \<^verbatim>\<open>style.transform\<close> as the pair of a
  \<^verbatim>\<open>translate(xpx, ypx)\<close>, and \<^verbatim>\<open>dataset.index\<close> (the source stores the decimal
  string of the number kept here).\<close>

record node =
  nid :: nat
  transform :: "(int \<times> int) option"
  dataIndex :: "int option"

datatype effect =
    StyleTransform nat int int
  | DatasetIndex nat int
  | RenderHandler "nat option" jsval int
  | CreateHandler nat
  | RemoveChild nat
  | Append "nat list"
  | ScrollTo int

text \<open>
  The children of the container are the runway followed by \<open>slots\<close>: the constructor
  appends the runway to the empty container, and no code path removes it or inserts
  before it. The fields \<open>runwayHeight\<close> to \<open>virtualContainerHeight\<close> are
  \<^verbatim>\<open>cachedValue\<close>; \<open>itemHeight\<close> and \<open>fixedSize\<close> are the options the code reads.
\<close>

record listview =
  itemHeight :: int
  fixedSize :: bool
  runwayHeight :: int
  runwayWidth :: int
  scrollbarWidth :: int
  virtualContainerHeight :: int
  sourceList :: "jsval list"
  runway :: node
  slots :: "node list"
  clientHeight :: int
  scrollTop :: int
  runwayClientHeight :: int
  runwayClientWidth :: int
  nextId :: nat
  effects :: "effect list"

type_synonym 'r outcome = "(error + 'r) \<times> listview"

definition andThen :: "'a outcome \<Rightarrow> ('a \<Rightarrow> listview \<Rightarrow> 'b outcome) \<Rightarrow> 'b outcome" where
  "andThen m f = (case m of (Inl e, s) \<Rightarrow> (Inl e, s) | (Inr a, s) \<Rightarrow> f a s)"

definition children :: "listview \<Rightarrow> node list" where
  "children s = runway s # slots s"

text \<open>\<^verbatim>\<open>container.children[k]\<close>: \<^verbatim>\<open>undefined\<close> (here \<open>None\<close>) out of range.\<close>

definition child :: "listview \<Rightarrow> nat \<Rightarrow> node option" where
  "child s k = (if k < length (children s) then Some (children s ! k) else None)"

definition childAt :: "listview \<Rightarrow> int \<Rightarrow> node option" where
  "childAt s k = (if k < 0 then None else child s (nat k))"

text \<open>A write to the element that is child \<open>k\<close> of the container.\<close>

definition updChild :: "nat \<Rightarrow> (node \<Rightarrow> node) \<Rightarrow> listview \<Rightarrow> listview" where
  "updChild k f s =
     (if k = 0 then s\<lparr>runway := f (runway s)\<rparr>
      else s\<lparr>slots := (slots s)[k - 1 := f (slots s ! (k - 1))]\<rparr>)"

definition emit :: "effect list \<Rightarrow> listview \<Rightarrow> listview" where
  "emit es s = s\<lparr>effects := effects s @ es\<rparr>"

text \<open>The state the constructor leaves, for the given options.\<close>

definition construct :: "int \<Rightarrow> bool \<Rightarrow> listview" where
  "construct ih fs =
     \<lparr>itemHeight = ih, fixedSize = fs, runwayHeight = 0, runwayWidth = 0,
      scrollbarWidth = 0, virtualContainerHeight = 0, sourceList = [],
      runway = \<lparr>nid = 0, transform = None, dataIndex = None\<rparr>, slots = [],
      clientHeight = 0, scrollTop = 0, runwayClientHeight = 0, runwayClientWidth = 0,
      nextId = 1, effects = []\<rparr>"

subsection \<open>Getters and private methods\<close>

text \<open>The getter \<^verbatim>\<open>virtualItemCount\<close> caches the container height it reads; the
  number it returns for the height \<open>h\<close> is \<open>visibleCount\<close>.\<close>

definition visibleCount :: "int \<Rightarrow> int \<Rightarrow> int" where
  "visibleCount h ih = js_ceil_div h ih + DSURPLUS_COUNT"

definition virtualItemCount :: "listview \<Rightarrow> int outcome" where
  "virtualItemCount s =
     (let clientHeight' = clientHeight s;
          s1 = s\<lparr>virtualContainerHeight := clientHeight'\<rparr>
      in if itemHeight s = 0 then (Inl NonFinite, s1)
         else (Inr (visibleCount clientHeight' (itemHeight s)), s1))"

definition actualContainerHeight :: "listview \<Rightarrow> int" where
  "actualContainerHeight s = int (length (sourceList s)) * itemHeight s"

definition measureSize :: "listview \<Rightarrow> listview" where
  "measureSize s =
     s\<lparr>runwayHeight := runwayClientHeight s, runwayWidth := runwayClientWidth s\<rparr>"

definition stretchList :: "listview \<Rightarrow> listview" where
  "stretchList s =
     (let x = 0;
          y = actualContainerHeight s - runwayClientHeight s
      in emit [StyleTransform (nid (runway s)) x y]
           (s\<lparr>runway := (runway s)\<lparr>transform := Some (x, y)\<rparr>\<rparr>))"

definition recycleList :: "listview \<Rightarrow> listview" where
  "recycleList s = s"

text \<open>The loop of \<^verbatim>\<open>_renderList\<close>. Reading \<^verbatim>\<open>node.style\<close> of a missing child
  throws a \<^verbatim>\<open>TypeError\<close>.\<close>

function renderLoop ::
  "int \<Rightarrow> int \<Rightarrow> int \<Rightarrow> int \<Rightarrow> int \<Rightarrow> jsval list \<Rightarrow> nat \<Rightarrow> listview \<Rightarrow> unit outcome" where
  "renderLoop count ih scrolledTop offset startIndex virtualList index s =
     (if int index < count then
        (case child s (index + RUNWAY_COUNT) of
           None \<Rightarrow> (Inl TypeError, s)
         | Some node \<Rightarrow>
             (let x = 0;
                  y = scrolledTop + int index * ih - offset;
                  s1 = emit [StyleTransform (nid node) x y]
                         (updChild (index + RUNWAY_COUNT) (\<lambda>n. n\<lparr>transform := Some (x, y)\<rparr>) s);
                  data = js_index virtualList index
              in if truthy data then
                   (let actualIndex = int index + startIndex;
                        s2 = emit [DatasetIndex (nid node) actualIndex]
                               (updChild (index + RUNWAY_COUNT)
                                  (\<lambda>n. n\<lparr>dataIndex := Some actualIndex\<rparr>) s1);
                        s3 = emit [RenderHandler (Some (nid node)) data actualIndex] s2
                    in renderLoop count ih scrolledTop offset startIndex virtualList
                         (index + 1) s3)
                 else renderLoop count ih scrolledTop offset startIndex virtualList
                        (index + 1) s1))
      else (Inr (), s))"
  by pat_completeness auto
termination
  by (relation "measure (\<lambda>(count, ih, scrolledTop, offset, startIndex, virtualList, index, s).
        nat (count - int index))") auto

definition renderList :: "listview \<Rightarrow> unit outcome" where
  "renderList s =
     andThen (virtualItemCount s) (\<lambda>count s1.
       let ih = itemHeight s1;
           scrolledTop = scrollTop s1;
           offset = js_rem scrolledTop ih;
           startIndex = js_floor_div scrolledTop ih;
           endIndex = startIndex + count;
           virtualList = js_slice (sourceList s1) startIndex endIndex
       in renderLoop count ih scrolledTop offset startIndex virtualList 0 s1)"

subsection \<open>Public methods and event handlers\<close>

definition insertData :: "jsval list \<Rightarrow> int option \<Rightarrow> listview \<Rightarrow> unit outcome" where
  "insertData dataList index s =
     (let maxIndex = int (length (sourceList s));
          position = (case index of
                        None \<Rightarrow> maxIndex
                      | Some i \<Rightarrow> if i < 0 \<or> i > maxIndex then maxIndex else i);
          s1 = s\<lparr>sourceList := snd (js_splice (sourceList s) position 0 dataList)\<rparr>
      in renderList (stretchList s1))"

text \<open>\<^verbatim>\<open>count\<close> is \<open>None\<close> when the caller omits it; the default is \<open>1\<close>.\<close>

definition deleteData :: "int \<Rightarrow> int option \<Rightarrow> listview \<Rightarrow> (jsval list) outcome" where
  "deleteData index count s =
     (let count' = (case count of None \<Rightarrow> 1 | Some c \<Rightarrow> c);
          (deleted, rest) = js_splice (sourceList s) index count' [];
          s1 = s\<lparr>sourceList := rest\<rparr>
      in andThen (renderList (recycleList (stretchList s1))) (\<lambda>u s2. (Inr deleted, s2)))"

text \<open>The first loop of \<^verbatim>\<open>updateData\<close>: \<^verbatim>\<open>removeChild(children[index])\<close> from the last
  child down, while \<^verbatim>\<open>index > RUNWAY_COUNT\<close>.\<close>

function removeLoop :: "nat \<Rightarrow> listview \<Rightarrow> unit outcome" where
  "removeLoop index s =
     (if index > RUNWAY_COUNT then
        (case child s index of
           None \<Rightarrow> (Inl TypeError, s)
         | Some node \<Rightarrow>
             removeLoop (index - 1)
               (emit [RemoveChild (nid node)]
                  (s\<lparr>slots := take (index - 1) (slots s) @ drop index (slots s)\<rparr>)))
      else (Inr (), s))"
  by pat_completeness auto
termination
  by (relation "measure (\<lambda>(index, s). index)") auto

text \<open>The element a call of \<^verbatim>\<open>createHandler()\<close> returns, with the identity \<open>k\<close>, and
  the loop that fills \<^verbatim>\<open>nodes\<close> with such elements.\<close>

definition freshNode :: "nat \<Rightarrow> node" where
  "freshNode k = \<lparr>nid = k, transform = None, dataIndex = None\<rparr>"

function createLoop :: "int \<Rightarrow> nat \<Rightarrow> node list \<Rightarrow> listview \<Rightarrow> node list \<times> listview" where
  "createLoop count index nodes s =
     (if int index < count then
        createLoop count (index + 1)
          (nodes @ [freshNode (nextId s)])
          (emit [CreateHandler (nextId s)] (s\<lparr>nextId := Suc (nextId s)\<rparr>))
      else (nodes, s))"
  by pat_completeness auto
termination
  by (relation "measure (\<lambda>(count, index, nodes, s). nat (count - int index))") auto

definition append :: "node list \<Rightarrow> listview \<Rightarrow> listview" where
  "append nodes s = emit [Append (map nid nodes)] (s\<lparr>slots := slots s @ nodes\<rparr>)"

definition scrollTo :: "int \<Rightarrow> listview \<Rightarrow> listview" where
  "scrollTo top' s = emit [ScrollTo top'] (s\<lparr>scrollTop := top'\<rparr>)"

definition updateData :: "jsval list \<Rightarrow> listview \<Rightarrow> unit outcome" where
  "updateData dataList s =
     (let s1 = s\<lparr>sourceList := [] @ dataList\<rparr>;
          s2 = (if \<not> fixedSize s1 then measureSize s1 else s1)
      in andThen (removeLoop (length (children s2) - 1) s2) (\<lambda>u s3.
         andThen (virtualItemCount s3) (\<lambda>count s4.
           let (nodes, s5) = createLoop count 0 [] s4;
               s6 = append nodes s5;
               s7 = (if int (length (sourceList s6)) \<le> count then scrollTo 0 s6 else s6)
           in renderList (stretchList s7))))"

text \<open>The handler is called with the child found, which is \<^verbatim>\<open>undefined\<close> (\<open>None\<close>)
  when the position is outside the children.\<close>

definition renderItem :: "jsval \<Rightarrow> int \<Rightarrow> listview \<Rightarrow> unit outcome" where
  "renderItem data index s =
     (if itemHeight s = 0 then (Inl NonFinite, s)
      else
        (let ih = itemHeight s;
             scrolledTop = scrollTop s;
             startIndex = js_floor_div scrolledTop ih;
             nodeIndex = index - startIndex;
             node = childAt s (nodeIndex + int RUNWAY_COUNT)
         in (Inr (),
             emit [RenderHandler (map_option nid node) data (nodeIndex + int RUNWAY_COUNT)] s)))"

text \<open>\<^verbatim>\<open>onScroll\<close> reads \<^verbatim>\<open>scrollTop\<close> from the target of the event: the first
  argument.\<close>

definition onScroll :: "int \<Rightarrow> listview \<Rightarrow> unit outcome" where
  "onScroll eventScrollTop s =
     (if eventScrollTop < 0
         \<or> eventScrollTop + virtualContainerHeight s > actualContainerHeight s
      then (Inr (), s)
      else renderList s)"

definition onResize :: "listview \<Rightarrow> unit outcome" where
  "onResize s =
     (let cachedHeight = virtualContainerHeight s;
          actualHeight = clientHeight s
      in if cachedHeight < actualHeight \<and> itemHeight s = 0 then (Inl NonFinite, s)
         else
           (let s1 = (if cachedHeight < actualHeight then
                        (let count = visibleCount actualHeight (itemHeight s)
                                       - (int (length (children s)) - int RUNWAY_COUNT);
                             (nodes, s') = createLoop count 0 [] s
                         in append nodes s')
                      else s);
                s2 = (if cachedHeight > actualHeight then recycleList s1 else s1)
            in renderList s2))"

definition doResize :: "listview \<Rightarrow> unit outcome" where
  "doResize s = onResize s"

subsection \<open>What one pass of the render loop writes\<close>

text \<open>The node that iteration \<open>j\<close> of the loop of \<^verbatim>\<open>_renderList\<close> leaves in place of
  the node \<open>n\<close>, and the effects it records. Both are used to state the closed form of
  the loop, which is proved below.\<close>

definition renderedNode :: "int \<Rightarrow> int \<Rightarrow> int \<Rightarrow> int \<Rightarrow> jsval list \<Rightarrow> nat \<Rightarrow> node \<Rightarrow> node" where
  "renderedNode ih scrolledTop offset startIndex virtualList j n =
     (let n1 = n\<lparr>transform := Some (0, scrolledTop + int j * ih - offset)\<rparr>
      in if truthy (js_index virtualList j) then n1\<lparr>dataIndex := Some (int j + startIndex)\<rparr>
         else n1)"

definition renderedEffects :: "int \<Rightarrow> int \<Rightarrow> int \<Rightarrow> int \<Rightarrow> jsval list \<Rightarrow> nat \<Rightarrow> node \<Rightarrow> effect list" where
  "renderedEffects ih scrolledTop offset startIndex virtualList j n =
     StyleTransform (nid n) 0 (scrolledTop + int j * ih - offset) #
     (if truthy (js_index virtualList j)
      then [DatasetIndex (nid n) (int j + startIndex),
            RenderHandler (Some (nid n)) (js_index virtualList j) (int j + startIndex)]
      else [])"

text \<open>The calls of \<^verbatim>\<open>renderHandler\<close> among a list of effects, in order.\<close>

fun handlerCalls :: "effect list \<Rightarrow> (nat option \<times> jsval \<times> int) list" where
  "handlerCalls [] = []"
| "handlerCalls (RenderHandler n d k # es) = (n, d, k) # handlerCalls es"
| "handlerCalls (e # es) = handlerCalls es"

text \<open>The effects an operation adds to those of the state \<open>s\<close> it started from.\<close>

definition newEffects :: "listview \<Rightarrow> listview \<Rightarrow> effect list" where
  "newEffects s s' = drop (length (effects s)) (effects s')"

subsection \<open>The stretch condition\<close>

text \<open>The runway carries the translation \<^verbatim>\<open>translate(0px, ypx)\<close> with \<open>y\<close> the
  height of all items less the runway's own height, as \<^verbatim>\<open>_stretchList\<close> computes it
  for the buffer the state holds.\<close>

definition stretched :: "listview \<Rightarrow> bool" where
  "stretched s =
     (transform (runway s) = Some (0, actualContainerHeight s - runwayClientHeight s))"

subsection \<open>States of the scenarios\<close>

text \<open>A list view of item height 24 in a container of height 100 after
  \<^verbatim>\<open>updateData\<close> of ten items: five item nodes, showing the items 0 to 4. (The
  recorded effects are left out of the scenario states.)\<close>

definition tenItems :: listview where
  "tenItems = (construct 24 False)
     \<lparr>sourceList := [Obj 0, Obj 1, Obj 2, Obj 3, Obj 4, Obj 5, Obj 6, Obj 7, Obj 8, Obj 9],
      runway := \<lparr>nid = 0, transform = Some (0, 240), dataIndex = None\<rparr>,
      slots := [\<lparr>nid = 1, transform = Some (0, 0), dataIndex = Some 0\<rparr>,
                \<lparr>nid = 2, transform = Some (0, 24), dataIndex = Some 1\<rparr>,
                \<lparr>nid = 3, transform = Some (0, 48), dataIndex = Some 2\<rparr>,
                \<lparr>nid = 4, transform = Some (0, 72), dataIndex = Some 3\<rparr>,
                \<lparr>nid = 5, transform = Some (0, 96), dataIndex = Some 4\<rparr>],
      clientHeight := 100, virtualContainerHeight := 100, nextId := 6\<rparr>"

text \<open>The ten items scrolled by two and a half rows, before the scroll event is
  handled.\<close>

definition tenItemsScrolled :: listview where
  "tenItemsScrolled = tenItems\<lparr>scrollTop := 60\<rparr>"

text \<open>The ten items with a runway that has come to measure 1 by 300.\<close>

definition tenItemsMeasured :: listview where
  "tenItemsMeasured = tenItems\<lparr>runwayClientHeight := 1, runwayClientWidth := 300\<rparr>"

text \<open>A container that was 48 high at \<^verbatim>\<open>updateData\<close> of three items, which made
  two item nodes, and is 24 high now; the resize event has not been handled yet, so
  the cached height is still 48.\<close>

definition shrunk :: listview where
  "shrunk = (construct 24 False)
     \<lparr>sourceList := [Obj 0, Obj 1, Obj 2],
      runway := \<lparr>nid = 0, transform = Some (0, 72), dataIndex = None\<rparr>,
      slots := [\<lparr>nid = 1, transform = Some (0, 0), dataIndex = Some 0\<rparr>,
                \<lparr>nid = 2, transform = Some (0, 24), dataIndex = Some 1\<rparr>],
      clientHeight := 24, virtualContainerHeight := 48, nextId := 3\<rparr>"

text \<open>The same container after the resize event has been handled, scrolled by one
  row.\<close>

definition surplusPool :: listview where
  "surplusPool = shrunk\<lparr>virtualContainerHeight := 24, scrollTop := 24\<rparr>"


text \<open>A list view just constructed, with default options, in a container of height
  100: no item node has been made yet.\<close>

definition fresh :: listview where
  "fresh = (construct 24 False)\<lparr>clientHeight := 100\<rparr>"

text \<open>Three items in five item nodes, as \<^verbatim>\<open>updateData\<close> leaves them in a container
  of height 100, pulled down by an elastic overscroll to the offset \<open>-30\<close>.\<close>

definition overscrolled :: listview where
  "overscrolled = (construct 24 False)
     \<lparr>sourceList := [Obj 0, Obj 1, Obj 2],
      runway := \<lparr>nid = 0, transform = Some (0, 72), dataIndex = None\<rparr>,
      slots := [\<lparr>nid = 1, transform = Some (0, 0), dataIndex = Some 0\<rparr>,
                \<lparr>nid = 2, transform = Some (0, 24), dataIndex = Some 1\<rparr>,
                \<lparr>nid = 3, transform = Some (0, 48), dataIndex = Some 2\<rparr>,
                \<lparr>nid = 4, transform = Some (0, 72), dataIndex = None\<rparr>,
                \<lparr>nid = 5, transform = Some (0, 96), dataIndex = None\<rparr>],
      clientHeight := 100, virtualContainerHeight := 100, scrollTop := - 30, nextId := 6\<rparr>"

text \<open>The ten items measured and scrolled by two and a half rows.\<close>

definition scrolledMeasured :: listview where
  "scrolledMeasured = tenItemsMeasured\<lparr>scrollTop := 60\<rparr>"

section \<open>The loops in closed form\<close>

declare renderLoop.simps [simp del]
declare removeLoop.simps [simp del]
declare createLoop.simps [simp del]

lemma child_slot:
  "child s (i + RUNWAY_COUNT) = (if i < length (slots s) then Some (slots s ! i) else None)"
  by (simp add: child_def children_def RUNWAY_COUNT_def)

lemma updChild_slot:
  "updChild (i + RUNWAY_COUNT) f s = s\<lparr>slots := (slots s)[i := f (slots s ! i)]\<rparr>"
  by (simp add: updChild_def RUNWAY_COUNT_def)

lemma renderLoop_any:
  "i \<le> length (slots s) \<Longrightarrow>
   renderLoop count ih st off start vl i s =
     (if count \<le> int (length (slots s)) then Inr () else Inl TypeError,
      s\<lparr>slots := map (\<lambda>j. if i \<le> j \<and> int j < count
                           then renderedNode ih st off start vl j (slots s ! j)
                           else slots s ! j) [0..<length (slots s)],
        effects := effects s @
           concat (map (\<lambda>j. renderedEffects ih st off start vl j (slots s ! j))
                     [i..<min (nat count) (length (slots s))])\<rparr>)"
proof (induction count ih st off start vl i s rule: renderLoop.induct)
  case (1 count ih st off start vl i s)
  let ?R = "\<lambda>k t. map (\<lambda>j. if k \<le> j \<and> int j < count
                           then renderedNode ih st off start vl j (slots t ! j)
                           else slots t ! j) [0..<length (slots t)]"
  let ?E = "\<lambda>k t. concat (map (\<lambda>j. renderedEffects ih st off start vl j (slots t ! j))
                        [k..<min (nat count) (length (slots t))])"
  let ?F = "\<lambda>t. if count \<le> int (length (slots t)) then Inr () else Inl TypeError"
  show ?case
  proof (cases "int i < count")
    case False
    then have "[i..<min (nat count) (length (slots s))] = []" by simp
    moreover have "?R i s = slots s"
      using False by (intro nth_equalityI) auto
    moreover have "count \<le> int (length (slots s))"
      using False "1.prems" by linarith
    ultimately show ?thesis
      using False by (subst renderLoop.simps) simp
  next
    case True
    show ?thesis
    proof (cases "i < length (slots s)")
      case False
      with "1.prems" have i: "i = length (slots s)" by simp
      have e: "min (nat count) (length (slots s)) = length (slots s)"
        using True i by linarith
      have r: "?R i s = slots s"
        using i by (intro nth_equalityI) auto
      have c: "\<not> count \<le> int (length (slots s))"
        using True i by simp
      have n: "child s (i + RUNWAY_COUNT) = None"
        using False by (simp add: child_slot)
      have "renderLoop count ih st off start vl i s = (Inl TypeError, s)"
        using True by (subst renderLoop.simps) (simp add: n)
      then show ?thesis
        unfolding e r using c i by simp
    next
      case il: True
      have upt: "[i..<min (nat count) (length (slots s))]
                   = i # [Suc i..<min (nat count) (length (slots s))]"
        using True il by (simp add: upt_conv_Cons)
      let ?n = "slots s ! i"
      let ?y = "st + int i * ih - off"
      let ?s1 = "emit [StyleTransform (nid ?n) 0 ?y]
                   (updChild (i + RUNWAY_COUNT) (\<lambda>n. n\<lparr>transform := Some (0, ?y)\<rparr>) s)"
      let ?ai = "int i + start"
      let ?s2 = "emit [DatasetIndex (nid ?n) ?ai]
                   (updChild (i + RUNWAY_COUNT) (\<lambda>n. n\<lparr>dataIndex := Some ?ai\<rparr>) ?s1)"
      let ?s3 = "emit [RenderHandler (Some (nid ?n)) (js_index vl i) ?ai] ?s2"
      define t where "t = (if truthy (js_index vl i) then ?s3 else ?s1)"
      have ch: "child s (i + RUNWAY_COUNT) = Some ?n"
        using il by (simp add: child_slot)
      have step: "renderLoop count ih st off start vl i s
                    = renderLoop count ih st off start vl (Suc i) t"
        using True unfolding t_def by (subst renderLoop.simps) (simp add: ch Let_def)
      have slots_t: "slots t = (slots s)[i := renderedNode ih st off start vl i ?n]"
        using il by (simp add: t_def emit_def updChild_slot renderedNode_def)
      have eff_t: "effects t = effects s @ renderedEffects ih st off start vl i ?n"
        by (simp add: t_def emit_def updChild_slot renderedEffects_def)
      have rest_t: "t = s\<lparr>slots := slots t, effects := effects t\<rparr>"
        by (simp add: t_def emit_def updChild_slot)
      have len: "Suc i \<le> length (slots t)"
        using il by (simp add: slots_t)
      have IH: "renderLoop count ih st off start vl (Suc i) t
                  = (?F t, t\<lparr>slots := ?R (Suc i) t, effects := effects t @ ?E (Suc i) t\<rparr>)"
      proof (cases "truthy (js_index vl i)")
        case T: True
        then have t3: "t = ?s3" by (simp add: t_def)
        show ?thesis
          using "1.IH"(1)[OF True ch refl refl refl refl T refl refl refl] len
          unfolding t3 by simp
      next
        case F: False
        then have t1: "t = ?s1" by (simp add: t_def)
        show ?thesis
          using "1.IH"(2)[OF True ch refl refl refl refl F] len
          unfolding t1 by simp
      qed
      have A: "?R (Suc i) t = ?R i s"
        unfolding slots_t using il True
        by (intro nth_equalityI) (auto simp: nth_list_update)
      have "map (\<lambda>j. renderedEffects ih st off start vl j (slots t ! j))
              [Suc i..<min (nat count) (length (slots t))]
            = map (\<lambda>j. renderedEffects ih st off start vl j (slots s ! j))
              [Suc i..<min (nat count) (length (slots s))]"
        unfolding slots_t by (rule map_cong) (simp_all add: nth_list_update)
      then have B: "?E (Suc i) t = ?E (Suc i) s"
        by (rule arg_cong)
      have F: "?F t = ?F s"
        by (simp add: slots_t)
      have "t\<lparr>slots := ?R (Suc i) t, effects := effects t @ ?E (Suc i) t\<rparr>
              = s\<lparr>slots := ?R i s, effects := effects s @ ?E i s\<rparr>"
        unfolding A B by (subst rest_t) (simp add: eff_t upt)
      with step IH F show ?thesis by simp
    qed
  qed
qed

lemma renderLoop_closed:
  assumes "count \<le> int (length (slots s))"
  shows "renderLoop count ih st off start vl 0 s =
     (Inr (),
      s\<lparr>slots := map (\<lambda>j. if int j < count
                           then renderedNode ih st off start vl j (slots s ! j)
                           else slots s ! j) [0..<length (slots s)],
        effects := effects s @
           concat (map (\<lambda>j. renderedEffects ih st off start vl j (slots s ! j)) [0..<nat count])\<rparr>)"
proof -
  have "min (nat count) (length (slots s)) = nat count"
    using assms by linarith
  then show ?thesis
    using assms by (simp add: renderLoop_any)
qed

lemma frame_refl:
  "\<exists>sl ef. s = s\<lparr>slots := sl, effects := effects s @ ef\<rparr> \<and> length sl = length (slots s)"
  by (rule exI[of _ "slots s"], rule exI[of _ "[]"]) simp

lemma renderLoop_frame:
  "\<exists>sl ef. snd (renderLoop count ih st off start vl i s) = s\<lparr>slots := sl, effects := effects s @ ef\<rparr>
      \<and> length sl = length (slots s)"
proof (induction count ih st off start vl i s rule: renderLoop.induct)
  case (1 count ih st off start vl i s)
  show ?case
  proof (cases "int i < count")
    case False
    then have "renderLoop count ih st off start vl i s = (Inr (), s)"
      by (subst renderLoop.simps) simp
    then show ?thesis
      by (simp only: snd_conv frame_refl)
  next
    case True
    show ?thesis
    proof (cases "child s (i + RUNWAY_COUNT)")
      case None
      with True have "renderLoop count ih st off start vl i s = (Inl TypeError, s)"
        by (subst renderLoop.simps) simp
      then show ?thesis
        by (simp only: snd_conv frame_refl)
    next
      case (Some n)
      let ?y = "st + int i * ih - off"
      let ?s1 = "emit [StyleTransform (nid n) 0 ?y]
                 (updChild (i + RUNWAY_COUNT) (\<lambda>n. n\<lparr>transform := Some (0, ?y)\<rparr>) s)"
      let ?ai = "int i + start"
      let ?s2 = "emit [DatasetIndex (nid n) ?ai]
                 (updChild (i + RUNWAY_COUNT) (\<lambda>n. n\<lparr>dataIndex := Some ?ai\<rparr>) ?s1)"
      let ?s3 = "emit [RenderHandler (Some (nid n)) (js_index vl i) ?ai] ?s2"
      define t where "t = (if truthy (js_index vl i) then ?s3 else ?s1)"
      have step: "renderLoop count ih st off start vl i s
                  = renderLoop count ih st off start vl (Suc i) t"
        using True Some unfolding t_def by (subst renderLoop.simps) (simp add: Let_def)
      have t_frame: "\<exists>sl ef. t = s\<lparr>slots := sl, effects := effects s @ ef\<rparr> \<and> length sl = length (slots s)"
      proof (cases "truthy (js_index vl i)")
        case True
        have "t = s\<lparr>slots := slots t, effects := effects s @
                [StyleTransform (nid n) 0 ?y, DatasetIndex (nid n) ?ai,
                 RenderHandler (Some (nid n)) (js_index vl i) ?ai]\<rparr>"
          using True by (simp add: t_def emit_def updChild_slot)
        moreover have "length (slots t) = length (slots s)"
          using True by (simp add: t_def emit_def updChild_slot)
        ultimately show ?thesis by blast
      next
        case False
        have "t = s\<lparr>slots := slots t, effects := effects s @ [StyleTransform (nid n) 0 ?y]\<rparr>"
          using False by (simp add: t_def emit_def updChild_slot)
        moreover have "length (slots t) = length (slots s)"
          using False by (simp add: t_def emit_def updChild_slot)
        ultimately show ?thesis by blast
      qed
      have IH: "\<exists>sl ef. snd (renderLoop count ih st off start vl (Suc i) t)
                  = t\<lparr>slots := sl, effects := effects t @ ef\<rparr> \<and> length sl = length (slots t)"
      proof (cases "truthy (js_index vl i)")
        case T: True
        then have t3: "t = ?s3" by (simp add: t_def)
        show ?thesis
          using "1.IH"(1)[OF True Some refl refl refl refl T refl refl refl]
          unfolding t3 by simp
      next
        case F: False
        then have t1: "t = ?s1" by (simp add: t_def)
        show ?thesis
          using "1.IH"(2)[OF True Some refl refl refl refl F]
          unfolding t1 by simp
      qed
      from t_frame obtain sl ef where t: "t = s\<lparr>slots := sl, effects := effects s @ ef\<rparr>"
        and l: "length sl = length (slots s)" by blast
      from IH obtain sl' ef' where r: "snd (renderLoop count ih st off start vl (Suc i) t)
                  = t\<lparr>slots := sl', effects := effects t @ ef'\<rparr>" and l': "length sl' = length (slots t)"
        by blast
      have "snd (renderLoop count ih st off start vl i s) = s\<lparr>slots := sl', effects := effects s @ (ef @ ef')\<rparr>"
        unfolding step r by (subst t) (simp add: t)
      moreover have "length sl' = length (slots s)"
        using l l' by (simp add: t)
      ultimately show ?thesis by blast
    qed
  qed
qed

lemma renderList_frame:
  "\<exists>sl ef. snd (renderList s)
      = s\<lparr>virtualContainerHeight := clientHeight s, slots := sl, effects := effects s @ ef\<rparr>
      \<and> length sl = length (slots s)"
proof (cases "itemHeight s = 0")
  case True
  then have "snd (renderList s) = s\<lparr>virtualContainerHeight := clientHeight s\<rparr>"
    by (simp add: renderList_def virtualItemCount_def andThen_def)
  then show ?thesis
    using frame_refl[of "s\<lparr>virtualContainerHeight := clientHeight s\<rparr>"] by simp
next
  case False
  let ?s1 = "s\<lparr>virtualContainerHeight := clientHeight s\<rparr>"
  obtain c st off start vl where
    "renderList s = renderLoop c (itemHeight s) st off start vl 0 ?s1"
    using False by (simp add: renderList_def virtualItemCount_def andThen_def Let_def)
  then show ?thesis
    using renderLoop_frame[of c "itemHeight s" st off start vl 0 ?s1] by simp
qed

lemma renderList_sourceList [simp]: "sourceList (snd (renderList s)) = sourceList s"
  using renderList_frame[of s] by auto

lemma renderList_runway [simp]: "runway (snd (renderList s)) = runway s"
  using renderList_frame[of s] by auto

lemma renderList_length_slots [simp]: "length (slots (snd (renderList s))) = length (slots s)"
  using renderList_frame[of s] by auto

lemma renderList_scrollTop [simp]: "scrollTop (snd (renderList s)) = scrollTop s"
  using renderList_frame[of s] by auto

lemma renderList_closed:
  assumes "itemHeight s \<noteq> 0"
    and "visibleCount (clientHeight s) (itemHeight s) \<le> int (length (slots s))"
  shows "renderList s =
     (Inr (),
      s\<lparr>virtualContainerHeight := clientHeight s,
        slots := map (\<lambda>j. if int j < visibleCount (clientHeight s) (itemHeight s)
                 then renderedNode (itemHeight s) (scrollTop s)
                        (js_rem (scrollTop s) (itemHeight s))
                        (js_floor_div (scrollTop s) (itemHeight s))
                        (js_slice (sourceList s) (js_floor_div (scrollTop s) (itemHeight s))
                           (js_floor_div (scrollTop s) (itemHeight s)
                              + visibleCount (clientHeight s) (itemHeight s)))
                        j (slots s ! j)
                 else slots s ! j) [0..<length (slots s)],
        effects := effects s @
           concat (map (\<lambda>j. renderedEffects (itemHeight s) (scrollTop s)
                        (js_rem (scrollTop s) (itemHeight s))
                        (js_floor_div (scrollTop s) (itemHeight s))
                        (js_slice (sourceList s) (js_floor_div (scrollTop s) (itemHeight s))
                           (js_floor_div (scrollTop s) (itemHeight s)
                              + visibleCount (clientHeight s) (itemHeight s)))
                        j (slots s ! j))
                   [0..<nat (visibleCount (clientHeight s) (itemHeight s))])\<rparr>)"
proof -
  let ?s1 = "s\<lparr>virtualContainerHeight := clientHeight s\<rparr>"
  have len: "visibleCount (clientHeight s) (itemHeight s) \<le> int (length (slots ?s1))"
    using assms(2) by simp
  show ?thesis
    using assms(1)
    by (simp add: renderList_def virtualItemCount_def andThen_def Let_def
          renderLoop_closed[OF len])
qed

lemma renderList_completes:
  "itemHeight s \<noteq> 0 \<Longrightarrow> visibleCount (clientHeight s) (itemHeight s) \<le> int (length (slots s))
   \<Longrightarrow> fst (renderList s) = Inr ()"
  by (simp add: renderList_closed)

lemma stretchList_fields [simp]:
  "sourceList (stretchList s) = sourceList s"
  "slots (stretchList s) = slots s"
  "itemHeight (stretchList s) = itemHeight s"
  "clientHeight (stretchList s) = clientHeight s"
  "scrollTop (stretchList s) = scrollTop s"
  "runwayClientHeight (stretchList s) = runwayClientHeight s"
  "transform (runway (stretchList s))
     = Some (0, int (length (sourceList s)) * itemHeight s - runwayClientHeight s)"
  "effects (stretchList s) = effects s @ [StyleTransform (nid (runway s)) 0
       (int (length (sourceList s)) * itemHeight s - runwayClientHeight s)]"
  by (simp_all add: stretchList_def emit_def actualContainerHeight_def Let_def)

lemma splice_insert:
  "0 \<le> p \<Longrightarrow> p \<le> int (length xs) \<Longrightarrow>
   js_splice xs p 0 items = ([], take (nat p) xs @ items @ drop (nat p) xs)"
  by (simp add: js_splice_def js_relative_def Let_def)

text \<open>
  C7. \<^verbatim>\<open>insertData(items, index)\<close> places the items at \<open>index\<close> when
  \<open>0 \<le> index \<le> length\<close>, and at the end when the index is omitted, negative or larger
  than the length. The items and the earlier elements keep their order: the new array is
  a prefix of the old one, the items, and the rest of the old one. This holds of the
  state the call leaves whether or not the render pass that follows completes.
\<close>

theorem insertData_position:
  "sourceList (snd (insertData items index s)) =
     (case index of
        None \<Rightarrow> sourceList s @ items
      | Some i \<Rightarrow>
          if 0 \<le> i \<and> i \<le> int (length (sourceList s))
          then take (nat i) (sourceList s) @ items @ drop (nat i) (sourceList s)
          else sourceList s @ items)"
  by (cases index) (auto simp: insertData_def Let_def splice_insert)

theorem insertData_position_witness:
  "sourceList (snd (insertData [Str ''a'', Str ''b''] (Some 2) shrunk))
     = [Obj 0, Obj 1, Str ''a'', Str ''b'', Obj 2]
   \<and> sourceList (snd (insertData [Str ''a'', Str ''b''] (Some 3) shrunk))
     = [Obj 0, Obj 1, Obj 2, Str ''a'', Str ''b'']
   \<and> sourceList (snd (insertData [Str ''a'', Str ''b''] (Some 4) shrunk))
     = [Obj 0, Obj 1, Obj 2, Str ''a'', Str ''b'']
   \<and> sourceList (snd (insertData [Str ''a'', Str ''b''] (Some (- 1)) shrunk))
     = [Obj 0, Obj 1, Obj 2, Str ''a'', Str ''b'']
   \<and> sourceList (snd (insertData [Str ''a'', Str ''b''] None shrunk))
     = [Obj 0, Obj 1, Obj 2, Str ''a'', Str ''b'']"
  using insertData_position[of "[Str ''a'', Str ''b'']" "Some 2" shrunk]
    insertData_position[of "[Str ''a'', Str ''b'']" "Some 3" shrunk]
    insertData_position[of "[Str ''a'', Str ''b'']" "Some 4" shrunk]
    insertData_position[of "[Str ''a'', Str ''b'']" "Some (- 1)" shrunk]
    insertData_position[of "[Str ''a'', Str ''b'']" None shrunk]
  by (simp add: shrunk_def construct_def)

lemma child_in_slots:
  "0 < k \<Longrightarrow> k \<le> length (slots s) \<Longrightarrow> child s k = Some (slots s ! (k - 1))"
  by (cases k) (simp_all add: child_def children_def)

lemma removeLoop_closed:
  "k \<le> length (slots s) \<Longrightarrow>
   removeLoop k s =
     (Inr (),
      s\<lparr>slots := take (min k 1) (slots s) @ drop k (slots s),
        effects := effects s @ map (\<lambda>n. RemoveChild (nid n)) (rev (drop 1 (take k (slots s))))\<rparr>)"
proof (induction k s rule: removeLoop.induct)
  case (1 k s)
  show ?case
  proof (cases "k > RUNWAY_COUNT")
    case False
    then have k: "k \<le> 1" by (simp add: RUNWAY_COUNT_def)
    then have "take (min k 1) (slots s) @ drop k (slots s) = slots s"
      by (simp add: min_def)
    moreover have "drop 1 (take k (slots s)) = []"
      using k by simp
    ultimately show ?thesis
      using False by (subst removeLoop.simps) simp
  next
    case True
    then have k: "1 < k" by (simp add: RUNWAY_COUNT_def)
    let ?n = "slots s ! (k - 1)"
    let ?t = "emit [RemoveChild (nid ?n)]
                (s\<lparr>slots := take (k - 1) (slots s) @ drop k (slots s)\<rparr>)"
    have ch: "child s k = Some ?n"
      using k "1.prems" by (simp add: child_in_slots)
    have step: "removeLoop k s = removeLoop (k - 1) ?t"
      using True by (subst removeLoop.simps) (simp add: ch)
    have len: "k - 1 \<le> length (slots ?t)"
      using "1.prems" by (simp add: emit_def)
    have tk: "take k (slots s) = take (k - 1) (slots s) @ [?n]"
      using k "1.prems" by (metis Suc_diff_1 Suc_le_lessD less_imp_diff_less not_gr_zero not_less_zero take_Suc_conv_app_nth zero_less_diff order.strict_trans zero_less_one)
    have A: "take (min (k - 1) 1) (slots ?t) @ drop (k - 1) (slots ?t)
               = take (min k 1) (slots s) @ drop k (slots s)"
    proof -
      have m: "min k (Suc 0) = Suc 0" "min (k - Suc 0) (Suc 0) = Suc 0"
        "min (length (slots s)) (k - Suc 0) = k - Suc 0" "k - Suc (k - Suc 0) = 0"
        "Suc 0 - (k - Suc 0) = 0" "min (Suc 0) (k - Suc 0) = Suc 0"
        using k "1.prems" by simp_all
      show ?thesis
        by (simp add: emit_def m)
    qed
    have B: "RemoveChild (nid (slots s ! (k - Suc 0))) #
               map (\<lambda>n. RemoveChild (nid n)) (rev (drop (Suc 0) (take (k - Suc 0) (slots s))))
               = map (\<lambda>n. RemoveChild (nid n)) (rev (drop (Suc 0) (take k (slots s))))"
      using k "1.prems" by (simp add: tk)
    have "removeLoop (k - 1) ?t = (Inr (),
      ?t\<lparr>slots := take (min (k - 1) 1) (slots ?t) @ drop (k - 1) (slots ?t),
        effects := effects ?t @ map (\<lambda>n. RemoveChild (nid n)) (rev (drop 1 (take (k - 1) (slots ?t))))\<rparr>)"
      using "1.IH"[OF True ch len] .
    also have "\<dots> = (Inr (),
      s\<lparr>slots := take (min k 1) (slots s) @ drop k (slots s),
        effects := effects s @ map (\<lambda>n. RemoveChild (nid n)) (rev (drop 1 (take k (slots s))))\<rparr>)"
      unfolding A using k "1.prems" by (simp add: emit_def B)
    finally show ?thesis using step by simp
  qed
qed

lemma createLoop_closed:
  "createLoop count i nodes s =
     (nodes @ map freshNode [nextId s..<nextId s + (nat count - i)],
      s\<lparr>nextId := nextId s + (nat count - i),
        effects := effects s @ map CreateHandler [nextId s..<nextId s + (nat count - i)]\<rparr>)"
proof (induction count i nodes s rule: createLoop.induct)
  case (1 count i nodes s)
  show ?case
  proof (cases "int i < count")
    case False
    then have "nat count - i = 0" by simp
    then show ?thesis
      using False by (subst createLoop.simps) simp
  next
    case True
    then have d: "nat count - i = Suc (nat count - Suc i)" by linarith
    let ?t = "emit [CreateHandler (nextId s)] (s\<lparr>nextId := Suc (nextId s)\<rparr>)"
    have step: "createLoop count i nodes s
                  = createLoop count (i + 1) (nodes @ [freshNode (nextId s)]) ?t"
      using True by (subst createLoop.simps) simp
    have u: "[nextId s..<nextId s + Suc (nat count - Suc i)]
               = nextId s # [Suc (nextId s)..<Suc (nextId s) + (nat count - Suc i)]"
      by (simp add: upt_conv_Cons)
    show ?thesis
      unfolding step "1.IH"[OF True] d u
      by (simp add: emit_def)
  qed
qed

lemma tenItems_fits:
  "itemHeight tenItems \<noteq> 0"
  "visibleCount (clientHeight tenItems) (itemHeight tenItems) \<le> int (length (slots tenItems))"
  by (simp_all add: tenItems_def construct_def visibleCount_def js_ceil_div_def
        DSURPLUS_COUNT_def)

lemma snd_andThen_return [simp]:
  "snd (andThen m (\<lambda>u s2. (Inr d, s2))) = snd m"
  by (cases m; cases "fst m") (auto simp: andThen_def)

lemma deleteData_sourceList:
  "sourceList (snd (deleteData index count s))
     = snd (js_splice (sourceList s) index (case count of None \<Rightarrow> 1 | Some c \<Rightarrow> c) [])"
proof -
  obtain d r where sp:
    "js_splice (sourceList s) index (case count of None \<Rightarrow> 1 | Some c \<Rightarrow> c) [] = (d, r)"
    by (cases "js_splice (sourceList s) index (case count of None \<Rightarrow> 1 | Some c \<Rightarrow> c) []")
  show ?thesis
    by (simp add: deleteData_def Let_def recycleList_def sp)
qed

lemma deleteData_returns:
  assumes "itemHeight s \<noteq> 0"
    and "visibleCount (clientHeight s) (itemHeight s) \<le> int (length (slots s))"
  shows "fst (deleteData index count s)
     = Inr (fst (js_splice (sourceList s) index (case count of None \<Rightarrow> 1 | Some c \<Rightarrow> c) []))"
proof -
  obtain d r where sp:
    "js_splice (sourceList s) index (case count of None \<Rightarrow> 1 | Some c \<Rightarrow> c) [] = (d, r)"
    by (cases "js_splice (sourceList s) index (case count of None \<Rightarrow> 1 | Some c \<Rightarrow> c) []")
  let ?t = "stretchList (s\<lparr>sourceList := r\<rparr>)"
  have "fst (renderList ?t) = Inr ()"
    using assms by (intro renderList_completes) simp_all
  then obtain t' where "renderList ?t = (Inr (), t')"
    by (cases "renderList ?t") auto
  then show ?thesis
    by (simp add: deleteData_def Let_def andThen_def recycleList_def sp)
qed

lemma splice_delete:
  "js_splice xs index c [] =
     (let start = nat (if index < 0 then max (int (length xs) + index) 0 else index)
      in (take (nat c) (drop start xs), take start xs @ drop (start + nat c) xs))"
proof -
  let ?len = "int (length xs)"
  let ?a = "js_relative ?len index"
  let ?start = "nat (if index < 0 then max (?len + index) 0 else index)"
  let ?n = "min (max c 0) (?len - ?a)"
  have a: "0 \<le> ?a" "?a \<le> ?len" by (simp_all add: js_relative_def)
  have s: "nat ?a = min ?start (length xs)"
    by (auto simp: js_relative_def)
  have n: "nat ?n = min (nat c) (length xs - nat ?a)"
    using a by arith
  have 1: "take (nat ?n) (drop (nat ?a) xs) = take (nat c) (drop ?start xs)"
    unfolding n s by (cases "?start \<le> length xs") (simp_all add: min_def)
  have "drop (nat (?a + ?n)) xs = drop (?start + nat c) xs"
  proof (cases "?start + nat c \<le> length xs")
    case True
    then have "nat (?a + ?n) = ?start + nat c"
      using a unfolding js_relative_def by (auto simp: min_def max_def)
    then show ?thesis by simp
  next
    case False
    then have "length xs \<le> nat (?a + ?n)"
      using a unfolding js_relative_def by (auto simp: min_def max_def)
    with False show ?thesis by simp
  qed
  moreover have "take (nat ?a) xs = take ?start xs"
    unfolding s by (simp add: min_def)
  ultimately show ?thesis
    using 1 by (simp add: js_splice_def Let_def)
qed

lemma insertData_sourceList:
  "sourceList (snd (insertData items index s)) =
     (case index of
        None \<Rightarrow> sourceList s @ items
      | Some i \<Rightarrow>
          if 0 \<le> i \<and> i \<le> int (length (sourceList s))
          then take (nat i) (sourceList s) @ items @ drop (nat i) (sourceList s)
          else sourceList s @ items)"
  by (cases index) (auto simp: insertData_def Let_def splice_insert)

lemma insertData_fields [simp]:
  "itemHeight (snd (insertData items index s)) = itemHeight s"
  "clientHeight (snd (insertData items index s)) = clientHeight s"
  "length (slots (snd (insertData items index s))) = length (slots s)"
proof -
  let ?t = "stretchList (s\<lparr>sourceList := snd (js_splice (sourceList s)
              (case index of None \<Rightarrow> int (length (sourceList s))
               | Some i \<Rightarrow> if i < 0 \<or> i > int (length (sourceList s))
                           then int (length (sourceList s)) else i) 0 items)\<rparr>)"
  have eq: "insertData items index s = renderList ?t"
    by (simp add: insertData_def Let_def)
  obtain sl ef where "snd (renderList ?t)
      = ?t\<lparr>virtualContainerHeight := clientHeight ?t, slots := sl, effects := effects ?t @ ef\<rparr>"
    and "length sl = length (slots ?t)"
    using renderList_frame[of ?t] by blast
  then show "itemHeight (snd (insertData items index s)) = itemHeight s"
    "clientHeight (snd (insertData items index s)) = clientHeight s"
    "length (slots (snd (insertData items index s))) = length (slots s)"
    unfolding eq by simp_all
qed


lemma renderList_more_fields [simp]:
  "itemHeight (snd (renderList s)) = itemHeight s"
  "clientHeight (snd (renderList s)) = clientHeight s"
  "runwayClientHeight (snd (renderList s)) = runwayClientHeight s"
  "fixedSize (snd (renderList s)) = fixedSize s"
  "nextId (snd (renderList s)) = nextId s"
  using renderList_frame[of s] by auto

lemma nid_freshNode [simp]: "nid (freshNode k) = k"
  by (simp add: freshNode_def)

lemma map_nid_freshNode [simp]: "map (\<lambda>x. nid (freshNode x)) ks = ks"
  by (induction ks) simp_all

lemma updateData_closed:
  fixes s :: listview and items :: "jsval list"
  defines "vc \<equiv> visibleCount (clientHeight s) (itemHeight s)"
  defines "ids \<equiv> [nextId s..<nextId s + nat vc]"
  assumes "itemHeight s \<noteq> 0"
  shows "updateData items s = renderList (stretchList
      (s\<lparr>sourceList := items,
         runwayHeight := (if fixedSize s then runwayHeight s else runwayClientHeight s),
         runwayWidth := (if fixedSize s then runwayWidth s else runwayClientWidth s),
         virtualContainerHeight := clientHeight s,
         slots := take 1 (slots s) @ map freshNode ids,
         scrollTop := (if int (length items) \<le> vc then 0 else scrollTop s),
         nextId := nextId s + nat vc,
         effects := effects s @ map (\<lambda>n. RemoveChild (nid n)) (rev (drop 1 (slots s)))
                      @ map CreateHandler ids @ [Append ids]
                      @ (if int (length items) \<le> vc then [ScrollTo 0] else [])\<rparr>))"
proof -
  define s2 where "s2 = (if \<not> fixedSize (s\<lparr>sourceList := [] @ items\<rparr>)
             then measureSize (s\<lparr>sourceList := [] @ items\<rparr>) else s\<lparr>sourceList := [] @ items\<rparr>)"
  have sl2: "slots s2 = slots s"
    by (simp add: s2_def measureSize_def)
  have m1: "take (min (length (slots s)) 1) (slots s) = take 1 (slots s)"
    by (cases "slots s") simp_all
  have rm: "removeLoop (length (children s2) - 1) s2 = (Inr (),
      s2\<lparr>slots := take 1 (slots s),
        effects := effects s2 @ map (\<lambda>n. RemoveChild (nid n)) (rev (drop 1 (slots s)))\<rparr>)"
    using removeLoop_closed[of "length (slots s2)" s2] m1
    by (simp add: children_def sl2)
  have "updateData items s =
      andThen (removeLoop (length (children s2) - 1) s2) (\<lambda>u s3.
         andThen (virtualItemCount s3) (\<lambda>count s4.
           let (nodes, s5) = createLoop count 0 [] s4;
               s6 = append nodes s5;
               s7 = (if int (length (sourceList s6)) \<le> count then scrollTo 0 s6 else s6)
           in renderList (stretchList s7)))"
    unfolding updateData_def Let_def s2_def ..
  also have "\<dots> = renderList (stretchList
      (s\<lparr>sourceList := items,
         runwayHeight := (if fixedSize s then runwayHeight s else runwayClientHeight s),
         runwayWidth := (if fixedSize s then runwayWidth s else runwayClientWidth s),
         virtualContainerHeight := clientHeight s,
         slots := take 1 (slots s) @ map freshNode ids,
         scrollTop := (if int (length items) \<le> vc then 0 else scrollTop s),
         nextId := nextId s + nat vc,
         effects := effects s @ map (\<lambda>n. RemoveChild (nid n)) (rev (drop 1 (slots s)))
                      @ map CreateHandler ids @ [Append ids]
                      @ (if int (length items) \<le> vc then [ScrollTo 0] else [])\<rparr>))"
    unfolding rm andThen_def
    using assms(3)
    by (auto simp: virtualItemCount_def Let_def createLoop_closed append_def scrollTo_def
          emit_def measureSize_def vc_def ids_def s2_def comp_def
          intro!: arg_cong[where f = renderList] arg_cong[where f = stretchList]
             listview.equality)
  finally show ?thesis .
qed

text \<open>
  C6, as the code has it. \<^verbatim>\<open>deleteData(index, count)\<close> hands both numbers to
  \<^verbatim>\<open>splice\<close>. With \<open>c\<close> the count (1 when omitted) the removal starts at \<open>index\<close>
  when \<open>index \<ge> 0\<close>, and at \<open>max (length + index) 0\<close>, counted from the end of the buffer,
  when \<open>index < 0\<close>. At most \<open>c\<close> items are removed (none when \<open>c \<le> 0\<close>), the rest of
  the buffer keeps its order, nothing is removed when \<open>index \<ge> length\<close>, and the call
  returns exactly the removed items when it completes, which it does when the container
  has an item node for every visible row.
\<close>

theorem deleteData_removes:
  fixes s :: listview and index :: int and count :: "int option"
  defines "c \<equiv> (case count of None \<Rightarrow> 1 | Some c \<Rightarrow> c)"
  defines "start \<equiv> nat (if index < 0 then max (int (length (sourceList s)) + index) 0
                         else index)"
  defines "removed \<equiv> take (nat c) (drop start (sourceList s))"
  shows "sourceList (snd (deleteData index count s))
           = take start (sourceList s) @ drop (start + nat c) (sourceList s)
     \<and> int (length removed) \<le> max c 0
     \<and> (int (length (sourceList s)) \<le> index \<longrightarrow>
           removed = [] \<and> sourceList (snd (deleteData index count s)) = sourceList s)
     \<and> (itemHeight s \<noteq> 0
          \<and> visibleCount (clientHeight s) (itemHeight s) \<le> int (length (slots s))
        \<longrightarrow> fst (deleteData index count s) = Inr removed)"
proof -
  have sp: "js_splice (sourceList s) index c []
              = (removed, take start (sourceList s) @ drop (start + nat c) (sourceList s))"
    by (simp add: splice_delete removed_def start_def Let_def)
  have 1: "sourceList (snd (deleteData index count s))
           = take start (sourceList s) @ drop (start + nat c) (sourceList s)"
    using sp by (simp add: deleteData_sourceList c_def)
  have 2: "int (length removed) \<le> max c 0"
    by (simp add: removed_def)
  have 3: "removed = [] \<and> sourceList (snd (deleteData index count s)) = sourceList s"
    if "int (length (sourceList s)) \<le> index"
  proof -
    from that have "length (sourceList s) \<le> start"
      by (simp add: start_def)
    then show ?thesis
      by (simp add: 1 removed_def)
  qed
  have 4: "fst (deleteData index count s) = Inr removed"
    if "itemHeight s \<noteq> 0"
      "visibleCount (clientHeight s) (itemHeight s) \<le> int (length (slots s))"
    using deleteData_returns[OF that, of index count] sp by (simp add: c_def)
  show ?thesis
    using 1 2 3 4 by blast
qed

text \<open>The scenario of the specification: \<^verbatim>\<open>deleteData(3, 100)\<close> on ten items.\<close>

theorem deleteData_removes_witness:
  "fst (deleteData 3 (Some 100) tenItems)
     = Inr [Obj 3, Obj 4, Obj 5, Obj 6, Obj 7, Obj 8, Obj 9]
   \<and> sourceList (snd (deleteData 3 (Some 100) tenItems)) = [Obj 0, Obj 1, Obj 2]
   \<and> sourceList (snd (deleteData 10 None tenItems)) = sourceList tenItems"
  using deleteData_removes[of 3 "Some 100" tenItems]
    deleteData_removes[of 10 None tenItems] tenItems_fits
  by (simp add: tenItems_def construct_def)

text \<open>As stated, C6 fails for a negative index, which is outside the range of the
  buffer: \<^verbatim>\<open>deleteData(-1)\<close> removes and returns the last item.\<close>

theorem deleteData_negative_index_counterexample:
  "fst (deleteData (- 1) None tenItems) = Inr [Obj 9]
   \<and> fst (deleteData (- 1) None tenItems) \<noteq> Inr []
   \<and> length (sourceList (snd (deleteData (- 1) None tenItems))) = 9"
  by (simp add: deleteData_returns[OF tenItems_fits] deleteData_sourceList splice_delete)
     (simp add: tenItems_def construct_def)

lemma stretched_stretchList [simp]: "stretched (stretchList s)"
  by (simp add: stretched_def actualContainerHeight_def)

lemma stretched_renderList [simp]: "stretched (snd (renderList t)) = stretched t"
  by (simp add: stretched_def actualContainerHeight_def)

lemma deleteData_as_render:
  "\<exists>t. stretched t \<and> snd (deleteData index count s) = snd (renderList t)"
proof -
  obtain d r where sp:
    "js_splice (sourceList s) index (case count of None \<Rightarrow> 1 | Some c \<Rightarrow> c) [] = (d, r)"
    by (cases "js_splice (sourceList s) index (case count of None \<Rightarrow> 1 | Some c \<Rightarrow> c) []")
  have "snd (deleteData index count s) = snd (renderList (stretchList (s\<lparr>sourceList := r\<rparr>)))"
    by (simp add: deleteData_def Let_def recycleList_def sp)
  then show ?thesis
    using stretched_stretchList by blast
qed

lemma insertData_runwayClientHeight:
  "runwayClientHeight (snd (insertData items index s)) = runwayClientHeight s"
  by (simp add: insertData_def Let_def)

lemma updateData_fields:
  assumes "itemHeight s \<noteq> 0"
  shows "sourceList (snd (updateData items s)) = items"
    and "itemHeight (snd (updateData items s)) = itemHeight s"
    and "clientHeight (snd (updateData items s)) = clientHeight s"
    and "runwayClientHeight (snd (updateData items s)) = runwayClientHeight s"
    and "length (slots (snd (updateData items s)))
           = min 1 (length (slots s)) + nat (visibleCount (clientHeight s) (itemHeight s))"
  by (simp_all add: updateData_closed[OF assms] min.commute)

lemma updateData_as_render:
  assumes "itemHeight s \<noteq> 0"
  shows "\<exists>t. stretched t \<and> updateData items s = renderList t"
  using updateData_closed[OF assms, of items] stretched_stretchList by blast

text \<open>
  C4. After \<^verbatim>\<open>insertData\<close>, \<^verbatim>\<open>deleteData\<close> and \<^verbatim>\<open>updateData\<close> the runway carries the
  translation \<open>(0, length * itemHeight - runway.clientHeight)\<close> for the buffer the call
  leaves, so that the translated runway ends at \<open>length * itemHeight\<close>; and each of the
  three calls is a render pass started in a state that already carries this translation:
  the stretch comes before the render pass. For \<^verbatim>\<open>updateData\<close> the item height must not
  be \<open>0\<close>.
\<close>

theorem stretch_after_mutation:
  "stretched (snd (insertData items index s))
   \<and> stretched (snd (deleteData i count s))
   \<and> (itemHeight s \<noteq> 0 \<longrightarrow> stretched (snd (updateData items s)))
   \<and> (\<exists>t. stretched t \<and> insertData items index s = renderList t)
   \<and> (\<exists>t. stretched t \<and> snd (deleteData i count s) = snd (renderList t))
   \<and> (itemHeight s \<noteq> 0 \<longrightarrow> (\<exists>t. stretched t \<and> updateData items s = renderList t))
   \<and> (\<forall>t. stretched t \<longrightarrow>
          (\<exists>y. transform (runway t) = Some (0, y)
             \<and> y + runwayClientHeight t = int (length (sourceList t)) * itemHeight t))"
proof -
  have ins: "\<exists>t. stretched t \<and> insertData items index s = renderList t"
    unfolding insertData_def Let_def using stretched_stretchList by blast
  then have 1: "stretched (snd (insertData items index s))"
    by auto
  have 2: "stretched (snd (deleteData i count s))"
    using deleteData_as_render[of i count s] by auto
  have 3: "stretched (snd (updateData items s))" if "itemHeight s \<noteq> 0"
    using updateData_as_render[OF that, of items] by auto
  have 7: "\<exists>y. transform (runway t) = Some (0, y)
             \<and> y + runwayClientHeight t = int (length (sourceList t)) * itemHeight t"
    if "stretched t" for t
    using that by (simp add: stretched_def actualContainerHeight_def)
  show ?thesis
    using ins 1 2 3 7 deleteData_as_render[of i count s] updateData_as_render[of s items]
    by blast
qed

theorem stretch_after_mutation_witness:
  "transform (runway (snd (updateData [Obj 11, Obj 12] tenItems))) = Some (0, 48)
   \<and> transform (runway (snd (insertData [Obj 10] None tenItems))) = Some (0, 264)"
proof -
  have ih: "itemHeight tenItems \<noteq> 0"
    by (rule tenItems_fits)
  have u: "sourceList (snd (updateData [Obj 11, Obj 12] tenItems)) = [Obj 11, Obj 12]"
    "itemHeight (snd (updateData [Obj 11, Obj 12] tenItems)) = 24"
    "runwayClientHeight (snd (updateData [Obj 11, Obj 12] tenItems)) = 0"
    by (simp_all add: updateData_fields[OF ih])
       (simp_all add: tenItems_def construct_def)
  have i: "sourceList (snd (insertData [Obj 10] None tenItems)) = sourceList tenItems @ [Obj 10]"
    "itemHeight (snd (insertData [Obj 10] None tenItems)) = 24"
    "runwayClientHeight (snd (insertData [Obj 10] None tenItems)) = 0"
    by (simp_all add: insertData_sourceList insertData_runwayClientHeight)
       (simp_all add: tenItems_def construct_def)
  from stretch_after_mutation[of "[Obj 11, Obj 12]" None tenItems 0 None] ih
  have "stretched (snd (updateData [Obj 11, Obj 12] tenItems))"
    by blast
  then have 1: "transform (runway (snd (updateData [Obj 11, Obj 12] tenItems))) = Some (0, 48)"
    by (simp add: stretched_def actualContainerHeight_def u)
  from stretch_after_mutation[of "[Obj 10]" None tenItems 0 None]
  have "stretched (snd (insertData [Obj 10] None tenItems))"
    by blast
  then have 2: "transform (runway (snd (insertData [Obj 10] None tenItems))) = Some (0, 264)"
    by (simp add: stretched_def actualContainerHeight_def i)
       (simp add: tenItems_def construct_def)
  show ?thesis
    using 1 2 by simp
qed

lemma js_rem_nonneg: "0 \<le> a \<Longrightarrow> 0 < b \<Longrightarrow> js_rem a b = a mod b"
  by (cases "a = 0") (simp_all add: js_rem_def)

lemma js_ceil_div_ceiling:
  "b \<noteq> 0 \<Longrightarrow> js_ceil_div a b = \<lceil>real_of_int a / real_of_int b\<rceil>"
proof -
  have "\<lceil>real_of_int a / real_of_int b\<rceil> = - \<lfloor>real_of_int (- a) / real_of_int b\<rfloor>"
    by (simp add: ceiling_def)
  also have "\<dots> = - ((- a) div b)"
    by (simp only: floor_divide_of_int_eq)
  finally show ?thesis
    by (simp add: js_ceil_div_def)
qed

lemma js_floor_div_floor:
  "js_floor_div a b = \<lfloor>real_of_int a / real_of_int b\<rfloor>"
  by (simp add: js_floor_div_def floor_divide_of_int_eq)

lemma slice_index:
  assumes "0 \<le> start" and "int j < count"
  shows "js_index (js_slice xs start (start + count)) j
           = (if start + int j < int (length xs) then xs ! nat (start + int j) else Undefined)"
proof -
  let ?len = "int (length xs)"
  have k: "js_relative ?len start = min start ?len"
    using assms by (simp add: js_relative_def)
  have f: "js_relative ?len (start + count) = min (start + count) ?len"
    using assms by (simp add: js_relative_def)
  show ?thesis
  proof (cases "start + int j < ?len")
    case True
    then have m: "min start ?len = start"
      using assms by simp
    have 1: "j < nat (min (start + count) ?len - start)"
      using True assms by linarith
    have 2: "j < length xs - nat start" "nat start + j = nat (start + int j)"
      using True assms by linarith+
    show ?thesis
      using True 1 2 by (simp add: js_index_def js_slice_def Let_def k f m)
  next
    case False
    then have "\<not> j < length (js_slice xs start (start + count))"
      using assms by (simp add: js_slice_def Let_def k f min_def) linarith
    with False show ?thesis
      by (simp add: js_index_def)
  qed
qed

lemma handlerCalls_append [simp]:
  "handlerCalls (es @ fs) = handlerCalls es @ handlerCalls fs"
  by (induction es rule: handlerCalls.induct) simp_all

lemma handlerCalls_concat:
  "handlerCalls (concat ess) = concat (map handlerCalls ess)"
  by (induction ess) simp_all

lemma handlerCalls_renderedEffects:
  "handlerCalls (renderedEffects ih st off start vl j n)
     = (if truthy (js_index vl j) then [(Some (nid n), js_index vl j, int j + start)] else [])"
  by (simp add: renderedEffects_def)

lemma newEffects_append [simp]: "newEffects s (t\<lparr>effects := effects s @ es\<rparr>) = es"
  by (simp add: newEffects_def)

lemma renderList_any:
  assumes "itemHeight s \<noteq> 0"
  shows "renderList s =
     (if visibleCount (clientHeight s) (itemHeight s) \<le> int (length (slots s))
      then Inr () else Inl TypeError,
      s\<lparr>virtualContainerHeight := clientHeight s,
        slots := map (\<lambda>j. if int j < visibleCount (clientHeight s) (itemHeight s)
                 then renderedNode (itemHeight s) (scrollTop s)
                        (js_rem (scrollTop s) (itemHeight s))
                        (js_floor_div (scrollTop s) (itemHeight s))
                        (js_slice (sourceList s) (js_floor_div (scrollTop s) (itemHeight s))
                           (js_floor_div (scrollTop s) (itemHeight s)
                              + visibleCount (clientHeight s) (itemHeight s)))
                        j (slots s ! j)
                 else slots s ! j) [0..<length (slots s)],
        effects := effects s @
           concat (map (\<lambda>j. renderedEffects (itemHeight s) (scrollTop s)
                        (js_rem (scrollTop s) (itemHeight s))
                        (js_floor_div (scrollTop s) (itemHeight s))
                        (js_slice (sourceList s) (js_floor_div (scrollTop s) (itemHeight s))
                           (js_floor_div (scrollTop s) (itemHeight s)
                              + visibleCount (clientHeight s) (itemHeight s)))
                        j (slots s ! j))
                   [0..<min (nat (visibleCount (clientHeight s) (itemHeight s)))
                            (length (slots s))])\<rparr>)"
  using assms
  by (simp add: renderList_def virtualItemCount_def andThen_def Let_def renderLoop_any)

text \<open>The render pass in closed form, for a non-negative scroll offset: the loop
  reaches the nodes below \<open>reach\<close>, the smaller of the visible count and the number of
  item nodes, and throws after them when the nodes are fewer than the visible count.\<close>

lemma render_pass:
  fixes s :: listview
  defines "count \<equiv> visibleCount (clientHeight s) (itemHeight s)"
  defines "start \<equiv> scrollTop s div itemHeight s"
  defines "s' \<equiv> snd (renderList s)"
  defines "item \<equiv> \<lambda>j. if int j + start < int (length (sourceList s))
                        then sourceList s ! nat (int j + start) else Undefined"
  defines "reach \<equiv> min (nat count) (length (slots s))"
  assumes ih: "0 < itemHeight s" and top: "0 \<le> scrollTop s"
  shows "fst (renderList s)
           = (if count \<le> int (length (slots s)) then Inr () else Inl TypeError)"
    and "length (slots s') = length (slots s)"
    and "\<And>j. j < reach \<Longrightarrow> slots s' ! j =
           (let n = (slots s ! j)\<lparr>transform :=
                      Some (0, scrollTop s + int j * itemHeight s - scrollTop s mod itemHeight s)\<rparr>
            in if truthy (item j) then n\<lparr>dataIndex := Some (int j + start)\<rparr> else n)"
    and "\<And>j. count \<le> int j \<Longrightarrow> j < length (slots s) \<Longrightarrow> slots s' ! j = slots s ! j"
    and "handlerCalls (newEffects s s') =
           concat (map (\<lambda>j. if truthy (item j)
                              then [(Some (nid (slots s ! j)), item j, int j + start)] else [])
                     [0..<reach])"
proof -
  let ?vl = "js_slice (sourceList s) start (start + count)"
  have ih0: "itemHeight s \<noteq> 0" using ih by simp
  note cl = renderList_any[OF ih0, unfolded js_floor_div_def js_rem_nonneg[OF top ih],
      folded start_def count_def, folded reach_def]
  have st0: "0 \<le> start"
    using ih top by (simp add: start_def pos_imp_zdiv_nonneg_iff)
  have vl: "js_index ?vl j = item j" if "j < reach" for j
  proof -
    from that have "int j < count" unfolding reach_def by linarith
    from slice_index[OF st0 this, of "sourceList s"] show ?thesis
      by (simp add: item_def add.commute)
  qed
  show "fst (renderList s)
           = (if count \<le> int (length (slots s)) then Inr () else Inl TypeError)"
    by (simp add: cl)
  show "length (slots s') = length (slots s)"
    by (simp add: s'_def)
  show "slots s' ! j =
           (let n = (slots s ! j)\<lparr>transform :=
                      Some (0, scrollTop s + int j * itemHeight s - scrollTop s mod itemHeight s)\<rparr>
            in if truthy (item j) then n\<lparr>dataIndex := Some (int j + start)\<rparr> else n)"
    if "j < reach" for j
  proof -
    have "j < length (slots s)" "int j < count" using that unfolding reach_def by linarith+
    then show ?thesis
      using that
      by (simp add: s'_def cl renderedNode_def Let_def vl)
  qed
  show "slots s' ! j = slots s ! j" if "count \<le> int j" "j < length (slots s)" for j
    using that by (simp add: s'_def cl)
  have "map (\<lambda>j. handlerCalls (renderedEffects (itemHeight s) (scrollTop s)
                  (scrollTop s mod itemHeight s) start ?vl j (slots s ! j)))
            [0..<reach]
        = map (\<lambda>j. if truthy (item j)
                     then [(Some (nid (slots s ! j)), item j, int j + start)] else [])
            [0..<reach]"
    by (rule map_cong) (simp_all add: handlerCalls_renderedEffects vl)
  then have "concat (map (\<lambda>j. handlerCalls (renderedEffects (itemHeight s) (scrollTop s)
                  (scrollTop s mod itemHeight s) start ?vl j (slots s ! j)))
            [0..<reach])
        = concat (map (\<lambda>j. if truthy (item j)
                     then [(Some (nid (slots s ! j)), item j, int j + start)] else [])
            [0..<reach])"
    by (rule arg_cong)
  then show "handlerCalls (newEffects s s') =
           concat (map (\<lambda>j. if truthy (item j)
                              then [(Some (nid (slots s ! j)), item j, int j + start)] else [])
                     [0..<reach])"
    by (simp add: s'_def cl handlerCalls_concat comp_def del: map_eq_conv)
qed

lemma set_concat_cond:
  "set (concat (map (\<lambda>j. if P j then [f j] else []) js)) = {f j |j. j \<in> set js \<and> P j}"
  by (induction js) auto

lemma handler_indices:
  fixes s :: listview
  defines "count \<equiv> visibleCount (clientHeight s) (itemHeight s)"
  defines "start \<equiv> scrollTop s div itemHeight s"
  assumes ih: "0 < itemHeight s" and top: "0 \<le> scrollTop s"
  shows "set (map (\<lambda>(n, d, k). k) (handlerCalls (newEffects s (snd (renderList s)))))
           = {k. start \<le> k \<and> k < start + min count (int (length (slots s)))
                 \<and> k < int (length (sourceList s)) \<and> truthy (sourceList s ! nat k)}"
    (is "?L = ?R")
proof -
  let ?item = "\<lambda>j. if int j + start < int (length (sourceList s))
                     then sourceList s ! nat (int j + start) else Undefined"
  let ?reach = "min (nat count) (length (slots s))"
  have st0: "0 \<le> start"
    using ih top by (simp add: start_def pos_imp_zdiv_nonneg_iff)
  have L: "?L = {int j + start |j. j < ?reach \<and> truthy (?item j)}"
    unfolding render_pass(5)[OF ih top, folded count_def start_def]
      set_map set_concat_cond
    by force
  show ?thesis
  proof (rule set_eqI)
    fix k
    show "k \<in> ?L \<longleftrightarrow> k \<in> ?R"
    proof
      assume "k \<in> ?L"
      then obtain j where j: "k = int j + start" "j < ?reach" "truthy (?item j)"
        unfolding L by blast
      then have "int j + start < int (length (sourceList s))"
        by (auto split: if_splits)
      moreover have "int j < min count (int (length (slots s)))"
        using j(2) by linarith
      ultimately show "k \<in> ?R" using j by auto
    next
      assume "k \<in> ?R"
      then have k: "start \<le> k" "k < start + min count (int (length (slots s)))"
        "k < int (length (sourceList s))" "truthy (sourceList s ! nat k)" by auto
      let ?j = "nat (k - start)"
      have "k = int ?j + start" "?j < ?reach" using k by linarith+
      moreover from this k have "truthy (?item ?j)" by simp
      ultimately show "k \<in> ?L" unfolding L by blast
    qed
  qed
qed

text \<open>
  C1, as the code has it. The loop of \<^verbatim>\<open>_renderList\<close> runs over the visible count
  \<open>ceil(clientHeight / itemHeight)\<close>, not over the item nodes that exist. For an item
  height above 0, a scroll offset of at least 0, at least as many item nodes as the
  visible count and a buffer of truthy items, the pass completes, and with
  \<open>start = floor(scrollTop / itemHeight)\<close>:
  the indices handed to \<^verbatim>\<open>renderHandler\<close> are exactly
  \<open>[start, start + count) \<inter> [0, N)\<close>; node \<open>i < count\<close> is moved to
  \<open>scrollTop + i * itemHeight - scrollTop mod itemHeight\<close>; when \<open>start + i < N\<close> it is
  tagged \<open>start + i\<close> and \<^verbatim>\<open>renderHandler\<close> is called with the node, the item and
  \<open>start + i\<close>; when \<open>start + i \<ge> N\<close> it is moved and its tag is left as it was; and the
  nodes from \<open>count\<close> on are not touched.
\<close>

theorem render_window:
  fixes s :: listview
  defines "count \<equiv> visibleCount (clientHeight s) (itemHeight s)"
  defines "start \<equiv> scrollTop s div itemHeight s"
  defines "N \<equiv> int (length (sourceList s))"
  defines "s' \<equiv> snd (renderList s)"
  defines "calls \<equiv> handlerCalls (newEffects s (snd (renderList s)))"
  assumes ih: "0 < itemHeight s" and top: "0 \<le> scrollTop s"
    and fits: "count \<le> int (length (slots s))"
    and truthy: "\<forall>x \<in> set (sourceList s). truthy x"
  shows "fst (renderList s) = Inr ()
     \<and> length (slots s') = length (slots s)
     \<and> set (map (\<lambda>(n, d, k). k) calls) = {start..<start + count} \<inter> {0..<N}
     \<and> (\<forall>i. int i < count \<longrightarrow>
            transform (slots s' ! i)
              = Some (0, scrollTop s + int i * itemHeight s - scrollTop s mod itemHeight s))
     \<and> (\<forall>i. int i < count \<and> start + int i < N \<longrightarrow>
            dataIndex (slots s' ! i) = Some (start + int i)
            \<and> (Some (nid (slots s ! i)), sourceList s ! nat (start + int i), start + int i)
                 \<in> set calls)
     \<and> (\<forall>i. int i < count \<and> N \<le> start + int i \<longrightarrow>
            dataIndex (slots s' ! i) = dataIndex (slots s ! i))
     \<and> (\<forall>i. count \<le> int i \<and> i < length (slots s) \<longrightarrow> slots s' ! i = slots s ! i)"
proof -
  note rp = render_pass[OF ih top, folded count_def start_def s'_def]
  have reach: "min (nat count) (length (slots s)) = nat count"
    "min count (int (length (slots s))) = count"
    using fits by linarith+
  have st0: "0 \<le> start"
    using ih top by (simp add: start_def pos_imp_zdiv_nonneg_iff)
  have tr: "truthy (sourceList s ! nat k)" if "0 \<le> k" "k < N" for k
    using truthy that by (simp add: N_def)
  have 1: "fst (renderList s) = Inr ()"
    using rp(1) fits by simp
  have 3: "set (map (\<lambda>(n, d, k). k) calls) = {start..<start + count} \<inter> {0..<N}"
    unfolding calls_def
      handler_indices[OF ih top, folded count_def start_def N_def] reach
    using st0 tr by auto
  have node: "slots s' ! i =
           (let n = (slots s ! i)\<lparr>transform :=
                      Some (0, scrollTop s + int i * itemHeight s - scrollTop s mod itemHeight s)\<rparr>
            in if truthy (if int i + start < int (length (sourceList s))
                          then sourceList s ! nat (int i + start) else Undefined)
               then n\<lparr>dataIndex := Some (int i + start)\<rparr> else n)"
    if "int i < count" for i
    using rp(3)[of i] that unfolding reach by simp
  have 4: "transform (slots s' ! i)
              = Some (0, scrollTop s + int i * itemHeight s - scrollTop s mod itemHeight s)"
    if "int i < count" for i
    by (simp add: node[OF that] Let_def)
  have 5: "dataIndex (slots s' ! i) = Some (start + int i)
            \<and> (Some (nid (slots s ! i)), sourceList s ! nat (start + int i), start + int i)
                 \<in> set calls"
    if "int i < count" "start + int i < N" for i
  proof -
    have t: "truthy (sourceList s ! nat (int i + start))"
      using tr[of "int i + start"] st0 that by simp
    have "i \<in> set [0..<nat count]" using that by simp
    then have "(Some (nid (slots s ! i)), sourceList s ! nat (int i + start), int i + start)
                 \<in> set calls"
      unfolding calls_def s'_def[symmetric] rp(5) reach
      using that t by (auto simp: N_def add.commute)
    then show ?thesis
      using that t by (simp add: node[OF that(1)] Let_def N_def add.commute)
  qed
  have 6: "dataIndex (slots s' ! i) = dataIndex (slots s ! i)"
    if "int i < count" "N \<le> start + int i" for i
    using that by (simp add: node[OF that(1)] Let_def N_def add.commute)
  show ?thesis
    using 1 rp(2) 3 4 5 6 rp(4) by blast
qed

lemma tenItemsScrolled_facts:
  "itemHeight tenItemsScrolled = 24" "scrollTop tenItemsScrolled = 60"
  "clientHeight tenItemsScrolled = 100" "length (slots tenItemsScrolled) = 5"
  "sourceList tenItemsScrolled
     = [Obj 0, Obj 1, Obj 2, Obj 3, Obj 4, Obj 5, Obj 6, Obj 7, Obj 8, Obj 9]"
  "nid (slots tenItemsScrolled ! 0) = 1"
  by (simp_all add: tenItemsScrolled_def tenItems_def construct_def)

lemma visibleCount_100_24: "visibleCount 100 24 = 5"
  by (simp add: visibleCount_def js_ceil_div_def DSURPLUS_COUNT_def)

theorem render_window_witness:
  "fst (renderList tenItemsScrolled) = Inr ()
   \<and> set (map (\<lambda>(n, d, k). k)
          (handlerCalls (newEffects tenItemsScrolled (snd (renderList tenItemsScrolled)))))
       = {2..<7}
   \<and> transform (slots (snd (renderList tenItemsScrolled)) ! 0) = Some (0, 48)
   \<and> dataIndex (slots (snd (renderList tenItemsScrolled)) ! 0) = Some 2
   \<and> (Some 1, Obj 2, 2)
       \<in> set (handlerCalls (newEffects tenItemsScrolled (snd (renderList tenItemsScrolled))))"
proof -
  have h: "0 < itemHeight tenItemsScrolled" "0 \<le> scrollTop tenItemsScrolled"
    "visibleCount (clientHeight tenItemsScrolled) (itemHeight tenItemsScrolled)
       \<le> int (length (slots tenItemsScrolled))"
    "\<forall>x \<in> set (sourceList tenItemsScrolled). truthy x"
    by (simp_all add: tenItemsScrolled_facts visibleCount_100_24)
  note w = render_window[OF h]
  have i: "{2..<7} \<inter> {0..<10} = {2..<(7::int)}" by auto
  have 1: "fst (renderList tenItemsScrolled) = Inr ()"
    using w by (rule conjunct1)
  have 3: "set (map (\<lambda>(n, d, k). k)
          (handlerCalls (newEffects tenItemsScrolled (snd (renderList tenItemsScrolled)))))
       = {2..<7}"
    using w[THEN conjunct2, THEN conjunct2, THEN conjunct1]
    by (simp add: tenItemsScrolled_facts visibleCount_100_24 i)
  have 4: "transform (slots (snd (renderList tenItemsScrolled)) ! 0) = Some (0, 48)"
    using w[THEN conjunct2, THEN conjunct2, THEN conjunct2, THEN conjunct1, rule_format, of 0]
    by (simp add: tenItemsScrolled_facts visibleCount_100_24)
  have 5: "dataIndex (slots (snd (renderList tenItemsScrolled)) ! 0) = Some 2
     \<and> (Some 1, Obj 2, 2)
       \<in> set (handlerCalls (newEffects tenItemsScrolled (snd (renderList tenItemsScrolled))))"
    using w[THEN conjunct2, THEN conjunct2, THEN conjunct2, THEN conjunct2, THEN conjunct1,
        rule_format, of 0]
    by (simp add: tenItemsScrolled_facts visibleCount_100_24 eval_nat_numeral)
  show ?thesis
    using 1 3 4 5 by blast
qed

text \<open>As stated, C1 fails when the container holds more item nodes than the visible
  count: with two nodes, one visible row and a valid scroll offset of one row, the pass
  binds index 1 only, where the claim has \<open>[1, 3) \<inter> [0, 3)\<close>, and it leaves the second
  node where it was, at 24, where the claim has it at \<open>24 + 1 * 24 - 0\<close>.\<close>

theorem render_window_counterexample:
  "0 \<le> scrollTop surplusPool
   \<and> scrollTop surplusPool
       \<le> int (length (sourceList surplusPool)) * itemHeight surplusPool - clientHeight surplusPool
   \<and> set (map (\<lambda>(n, d, k). k)
          (handlerCalls (newEffects surplusPool (snd (renderList surplusPool)))))
       \<noteq> {scrollTop surplusPool div itemHeight surplusPool
            ..<scrollTop surplusPool div itemHeight surplusPool
                + int (length (slots surplusPool))}
           \<inter> {0..<int (length (sourceList surplusPool))}
   \<and> transform (slots (snd (renderList surplusPool)) ! 1)
       \<noteq> Some (0, scrollTop surplusPool + 1 * itemHeight surplusPool
                    - scrollTop surplusPool mod itemHeight surplusPool)"
proof -
  have f: "itemHeight surplusPool = 24" "scrollTop surplusPool = 24"
    "clientHeight surplusPool = 24" "length (slots surplusPool) = 2"
    "sourceList surplusPool = [Obj 0, Obj 1, Obj 2]"
    "slots surplusPool ! 1 = \<lparr>nid = 2, transform = Some (0, 24), dataIndex = Some 1\<rparr>"
    by (simp_all add: surplusPool_def shrunk_def construct_def)
  have vc: "visibleCount 24 24 = 1"
    by (simp add: visibleCount_def js_ceil_div_def DSURPLUS_COUNT_def)
  have h: "0 < itemHeight surplusPool" "0 \<le> scrollTop surplusPool"
    by (simp_all add: f)
  have "set (map (\<lambda>(n, d, k). k)
          (handlerCalls (newEffects surplusPool (snd (renderList surplusPool)))))
        = {k. 1 \<le> k \<and> k < 2 \<and> k < 3 \<and> truthy ([Obj 0, Obj 1, Obj 2] ! nat k)}"
    using handler_indices[OF h] by (simp add: f vc)
  then have 1: "2 \<notin> set (map (\<lambda>(n, d, k). k)
          (handlerCalls (newEffects surplusPool (snd (renderList surplusPool)))))"
    by simp
  have 2: "(2::int) \<in> {1..<1 + 2} \<inter> {0..<3}" by simp
  have "slots (snd (renderList surplusPool)) ! 1 = slots surplusPool ! 1"
    using render_pass(4)[OF h, of 1] by (simp add: f vc)
  then have 3: "transform (slots (snd (renderList surplusPool)) ! 1) = Some (0, 24)"
    using f(6) by simp
  have 4: "Some (0, scrollTop surplusPool + 1 * itemHeight surplusPool
                    - scrollTop surplusPool mod itemHeight surplusPool) = Some (0, 48)"
    by (simp add: f)
  have 5: "{scrollTop surplusPool div itemHeight surplusPool
            ..<scrollTop surplusPool div itemHeight surplusPool
                + int (length (slots surplusPool))}
           \<inter> {0..<int (length (sourceList surplusPool))} = {1..<1 + 2} \<inter> {0..<3}"
    by (simp add: f)
  show ?thesis
    unfolding 4 5 using 1 2 3 by (auto simp: f(1-5))
qed



lemma renderList_cache_fields [simp]:
  "virtualContainerHeight (snd (renderList s)) = clientHeight s"
  "runwayHeight (snd (renderList s)) = runwayHeight s"
  "runwayWidth (snd (renderList s)) = runwayWidth s"
  using renderList_frame[of s] by auto

lemma renderItem_call:
  "itemHeight s \<noteq> 0 \<Longrightarrow>
   renderItem data index s =
     (Inr (),
      s\<lparr>effects := effects s @
         [RenderHandler
            (map_option nid (childAt s (index - scrollTop s div itemHeight s + 1)))
            data (index - scrollTop s div itemHeight s + 1)]\<rparr>)"
  by (simp add: renderItem_def Let_def js_floor_div_def emit_def RUNWAY_COUNT_def)

text \<open>
  C2 at a concrete input. The ten items are scrolled to offset 60, so the window starts
  at index 2 and the logical index 4 is shown by the third item node (identity 3), the
  child at position 3 of the container. \<^verbatim>\<open>renderItem(data, 4)\<close> calls
  \<^verbatim>\<open>renderHandler\<close> once, with that node and the data, and with 3, the position of the
  node among the children, as the index argument, not with the logical index 4. The
  render pass calls the handler for the same node with the index 4.
\<close>

theorem renderItem_passes_child_position:
  "newEffects tenItemsScrolled (snd (renderItem (Obj 99) 4 tenItemsScrolled))
     = [RenderHandler (Some 3) (Obj 99) 3]
   \<and> (Some 3, Obj 4, 4)
       \<in> set (handlerCalls (newEffects tenItemsScrolled (snd (renderList tenItemsScrolled))))"
proof -
  have h: "0 < itemHeight tenItemsScrolled" "0 \<le> scrollTop tenItemsScrolled"
    by (simp_all add: tenItemsScrolled_facts)
  have c: "map_option nid (childAt tenItemsScrolled 3) = Some 3"
    by (simp add: childAt_def child_def children_def tenItemsScrolled_def tenItems_def
          construct_def eval_nat_numeral)
  have 1: "newEffects tenItemsScrolled (snd (renderItem (Obj 99) 4 tenItemsScrolled))
     = [RenderHandler (Some 3) (Obj 99) 3]"
    by (simp add: renderItem_call tenItemsScrolled_facts c)
  have n: "nid (slots tenItemsScrolled ! 2) = 3"
    by (simp add: tenItemsScrolled_def tenItems_def construct_def eval_nat_numeral)
  have "2 \<in> set [0..<nat (visibleCount 100 24)]"
    by (simp add: visibleCount_100_24)
  then have 2: "(Some 3, Obj 4, 4)
       \<in> set (handlerCalls (newEffects tenItemsScrolled (snd (renderList tenItemsScrolled))))"
    unfolding render_pass(5)[OF h] set_concat_cond
    by (simp add: tenItemsScrolled_facts visibleCount_100_24 n)
  show ?thesis
    using 1 2 by simp
qed

lemma onResize_grow:
  assumes "itemHeight s \<noteq> 0" and "virtualContainerHeight s < clientHeight s"
  shows "onResize s = renderList
     (s\<lparr>slots := slots s @ map freshNode
          [nextId s..<nextId s
             + nat (visibleCount (clientHeight s) (itemHeight s) - int (length (slots s)))],
        nextId := nextId s
             + nat (visibleCount (clientHeight s) (itemHeight s) - int (length (slots s))),
        effects := effects s @ map CreateHandler
          [nextId s..<nextId s
             + nat (visibleCount (clientHeight s) (itemHeight s) - int (length (slots s)))]
          @ [Append [nextId s..<nextId s
             + nat (visibleCount (clientHeight s) (itemHeight s) - int (length (slots s)))]]\<rparr>)"
  using assms
  by (auto simp: onResize_def Let_def createLoop_closed append_def emit_def children_def
        RUNWAY_COUNT_def comp_def recycleList_def
        intro!: arg_cong[where f = renderList] listview.equality)

lemma onResize_keep:
  assumes "\<not> virtualContainerHeight s < clientHeight s"
  shows "onResize s = renderList s"
  using assms by (simp add: onResize_def Let_def recycleList_def)

lemma onResize_length_slots:
  assumes "itemHeight s \<noteq> 0"
  shows "int (length (slots (snd (onResize s))))
     = (if virtualContainerHeight s < clientHeight s
        then max (int (length (slots s))) (visibleCount (clientHeight s) (itemHeight s))
        else int (length (slots s)))"
proof (cases "virtualContainerHeight s < clientHeight s")
  case True
  show ?thesis
    unfolding onResize_grow[OF assms True] using True by simp
next
  case False
  then show ?thesis
    by (simp add: onResize_keep)
qed

lemma onResize_fields:
  assumes "itemHeight s \<noteq> 0"
  shows "itemHeight (snd (onResize s)) = itemHeight s"
    and "clientHeight (snd (onResize s)) = clientHeight s"
    and "virtualContainerHeight (snd (onResize s)) = clientHeight s"
proof -
  have "\<exists>t. onResize s = renderList t \<and> itemHeight t = itemHeight s
            \<and> clientHeight t = clientHeight s"
  proof (cases "virtualContainerHeight s < clientHeight s")
    case True
    show ?thesis
      unfolding onResize_grow[OF assms True] by (intro exI conjI, rule refl) simp_all
  next
    case False
    then have "onResize s = renderList s"
      by (rule onResize_keep)
    then show ?thesis
      by blast
  qed
  then obtain t where "onResize s = renderList t" "itemHeight t = itemHeight s"
    "clientHeight t = clientHeight s" by blast
  then show "itemHeight (snd (onResize s)) = itemHeight s"
    "clientHeight (snd (onResize s)) = clientHeight s"
    "virtualContainerHeight (snd (onResize s)) = clientHeight s"
    by simp_all
qed

lemma onResize_grow_completes:
  assumes "itemHeight s \<noteq> 0" and "virtualContainerHeight s < clientHeight s"
  shows "fst (onResize s) = Inr ()"
  unfolding onResize_grow[OF assms]
  using assms(1) by (intro renderList_completes) simp_all

text \<open>
  C5, as the code has it. \<^verbatim>\<open>onResize\<close> only ever adds item nodes. When the container
  has grown since the height was last cached, the pool is brought up to
  \<open>ceil(clientHeight / itemHeight) + DSURPLUS_COUNT\<close> nodes: it has the larger of that
  number and its earlier size, so exactly that number when it had no more before, and
  the resize completes. When the container has not grown, the pool keeps its size:
  nodes that are no longer needed are not removed. In each case the cached height is
  the container's height afterwards, and the size of the pool does not depend on the
  buffer.
\<close>

theorem onResize_pool:
  fixes s :: listview
  defines "need \<equiv> \<lceil>real_of_int (clientHeight s) / real_of_int (itemHeight s)\<rceil> + DSURPLUS_COUNT"
  assumes ih: "itemHeight s \<noteq> 0"
  shows "(virtualContainerHeight s < clientHeight s \<longrightarrow>
            int (length (slots (snd (onResize s)))) = max (int (length (slots s))) need
            \<and> fst (onResize s) = Inr ())
     \<and> (virtualContainerHeight s < clientHeight s \<and> int (length (slots s)) \<le> need \<longrightarrow>
            int (length (slots (snd (onResize s)))) = need)
     \<and> (clientHeight s \<le> virtualContainerHeight s \<longrightarrow>
            length (slots (snd (onResize s))) = length (slots s))
     \<and> virtualContainerHeight (snd (onResize s)) = clientHeight s
     \<and> length (slots (snd (onResize (s\<lparr>sourceList := xs\<rparr>))))
         = length (slots (snd (onResize s)))"
proof -
  have need: "need = visibleCount (clientHeight s) (itemHeight s)"
    using ih by (simp add: need_def visibleCount_def js_ceil_div_ceiling)
  have ih': "itemHeight (s\<lparr>sourceList := xs\<rparr>) \<noteq> 0"
    using ih by simp
  have "int (length (slots (snd (onResize (s\<lparr>sourceList := xs\<rparr>)))))
          = int (length (slots (snd (onResize s))))"
    unfolding onResize_length_slots[OF ih] onResize_length_slots[OF ih'] by simp
  then have indep: "length (slots (snd (onResize (s\<lparr>sourceList := xs\<rparr>))))
         = length (slots (snd (onResize s)))"
    by simp
  show ?thesis
    using onResize_length_slots[OF ih] onResize_fields(3)[OF ih]
      onResize_grow_completes[OF ih] indep
    by (auto simp: need)
qed

lemma shrunk_facts:
  "itemHeight shrunk = 24" "clientHeight shrunk = 24" "virtualContainerHeight shrunk = 48"
  "length (slots shrunk) = 2"
  by (simp_all add: shrunk_def construct_def)

theorem onResize_pool_witness:
  "length (slots (snd (onResize shrunk))) = 2
   \<and> virtualContainerHeight (snd (onResize shrunk)) = 24
   \<and> int (length (slots (snd (onResize (tenItemsScrolled\<lparr>clientHeight := 150\<rparr>))))) = 7
   \<and> fst (onResize (tenItemsScrolled\<lparr>clientHeight := 150\<rparr>)) = Inr ()"
proof -
  have c: "\<lceil>150 / (24::real)\<rceil> = 7"
    by (simp add: ceiling_eq_iff)
  have t: "virtualContainerHeight tenItemsScrolled = 100"
    by (simp add: tenItemsScrolled_def tenItems_def)
  show ?thesis
    using onResize_pool[of shrunk] onResize_pool[of "tenItemsScrolled\<lparr>clientHeight := 150\<rparr>"]
    by (simp add: shrunk_facts tenItemsScrolled_facts t c DSURPLUS_COUNT_def)
qed

text \<open>As stated, C5 fails after a resize that makes the container smaller: two item
  nodes remain where \<open>ceil(24 / 24) + 0 = 1\<close> is needed.\<close>

theorem onResize_pool_counterexample:
  "fst (onResize shrunk) = Inr ()
   \<and> int (length (slots (snd (onResize shrunk))))
       \<noteq> \<lceil>real_of_int (clientHeight (snd (onResize shrunk)))
            / real_of_int (itemHeight (snd (onResize shrunk)))\<rceil> + DSURPLUS_COUNT"
proof -
  have ih: "itemHeight shrunk \<noteq> 0"
    by (simp add: shrunk_facts)
  have "visibleCount (clientHeight shrunk) (itemHeight shrunk) \<le> int (length (slots shrunk))"
    by (simp add: shrunk_facts visibleCount_def js_ceil_div_def DSURPLUS_COUNT_def)
  then have 1: "fst (onResize shrunk) = Inr ()"
    using ih by (simp add: onResize_keep shrunk_facts renderList_completes)
  have 2: "int (length (slots (snd (onResize shrunk)))) = 2"
    by (simp add: onResize_length_slots[OF ih] shrunk_facts)
  show ?thesis
    using 1 by (simp add: 2 onResize_fields[OF ih] shrunk_facts DSURPLUS_COUNT_def)
qed

lemma stretchList_cache [simp]:
  "runwayHeight (stretchList s) = runwayHeight s"
  "runwayWidth (stretchList s) = runwayWidth s"
  "virtualContainerHeight (stretchList s) = virtualContainerHeight s"
  by (simp_all add: stretchList_def emit_def Let_def)

lemma upt_2: "[0..<2] = [0, 1]" "[0..<Suc (Suc 0)] = [0, Suc 0]"
  by (simp_all add: upt_rec)

text \<open>The scenario states \<open>tenItems\<close>, \<open>shrunk\<close> and \<open>surplusPool\<close> are states
  the operations reach (the recorded effects apart).\<close>

lemma tenItems_reached:
  "(snd (updateData [Obj 0, Obj 1, Obj 2, Obj 3, Obj 4, Obj 5, Obj 6, Obj 7, Obj 8, Obj 9]
          ((construct 24 False)\<lparr>clientHeight := 100\<rparr>)))\<lparr>effects := []\<rparr> = tenItems"
proof -
  let ?c = "(construct 24 False)\<lparr>clientHeight := 100\<rparr>"
  have ih: "itemHeight ?c \<noteq> 0" by (simp add: construct_def)
  have sl: "js_slice [a, b, c, d, e, f, g, h, i, j] 0 5 = [a, b, c, d, e]"
    for a b c d e f g h i j :: jsval
    by (simp add: js_slice_def js_relative_def Let_def)
  have u: "[0..<5] = [0, 1, 2, 3, 4]" "[Suc 0..<6] = [1, 2, 3, 4, 5]"
    by (simp_all add: upt_rec)
  show ?thesis
    unfolding updateData_closed[OF ih]
    apply (subst renderList_closed)
      apply (simp add: construct_def)
     apply (simp add: construct_def visibleCount_100_24)
    apply (simp add: construct_def visibleCount_100_24 tenItems_def stretchList_def emit_def
        actualContainerHeight_def Let_def js_floor_div_def js_rem_def sl u
        renderedNode_def js_index_def freshNode_def)
    done
qed

lemma shrunk_reached:
  "(snd (updateData [Obj 0, Obj 1, Obj 2] ((construct 24 False)\<lparr>clientHeight := 48\<rparr>)))
              \<lparr>clientHeight := 24, effects := []\<rparr> = shrunk"
proof -
  let ?c = "(construct 24 False)\<lparr>clientHeight := 48\<rparr>"
  have ih: "itemHeight ?c \<noteq> 0" by (simp add: construct_def)
  have vc: "visibleCount 48 24 = 2"
    by (simp add: visibleCount_def js_ceil_div_def DSURPLUS_COUNT_def)
  have sl: "js_slice [a, b, c] 0 2 = [a, b]" for a b c :: jsval
    by (simp add: js_slice_def js_relative_def Let_def)
  show ?thesis
    unfolding updateData_closed[OF ih]
    apply (subst renderList_closed)
      apply (simp add: construct_def)
     apply (simp add: construct_def vc)
    apply (simp add: construct_def vc shrunk_def surplusPool_def stretchList_def emit_def
        actualContainerHeight_def Let_def js_floor_div_def js_rem_def sl upt_2
        renderedNode_def js_index_def freshNode_def)
    done
qed

lemma surplusPool_reached:
  "(snd (onResize shrunk))\<lparr>scrollTop := 24, effects := []\<rparr> = surplusPool"
proof -
  have f: "\<not> virtualContainerHeight shrunk < clientHeight shrunk" "itemHeight shrunk \<noteq> 0"
    by (simp_all add: shrunk_facts)
  have vc: "visibleCount 24 24 = 1"
    by (simp add: visibleCount_def js_ceil_div_def DSURPLUS_COUNT_def)
  have sl: "js_slice [a, b, c] 0 1 = [a]" for a b c :: jsval
    by (simp add: js_slice_def js_relative_def Let_def)
  show ?thesis
    unfolding onResize_keep[OF f(1)]
    apply (subst renderList_closed)
      apply (simp add: shrunk_facts)
     apply (simp add: shrunk_facts vc)
    apply (simp add: vc shrunk_def surplusPool_def construct_def
        Let_def js_floor_div_def js_rem_def sl upt_2
        renderedNode_def js_index_def)
    done
qed









lemma overscrolled_reached:
  "(snd (updateData [Obj 0, Obj 1, Obj 2] fresh))\<lparr>scrollTop := - 30, effects := []\<rparr>
     = overscrolled"
proof -
  have ih: "itemHeight fresh \<noteq> 0" by (simp add: fresh_def construct_def)
  have sl: "js_slice [a, b, c] 0 5 = [a, b, c]" for a b c :: jsval
    by (simp add: js_slice_def js_relative_def Let_def)
  have u: "[0..<5] = [0, 1, 2, 3, 4]" "[Suc 0..<6] = [1, 2, 3, 4, 5]"
    by (simp_all add: upt_rec)
  show ?thesis
    unfolding updateData_closed[OF ih]
    apply (subst renderList_closed)
      apply (simp add: fresh_def construct_def)
     apply (simp add: fresh_def construct_def visibleCount_100_24)
    apply (simp add: fresh_def construct_def visibleCount_100_24 overscrolled_def
        stretchList_def emit_def actualContainerHeight_def Let_def js_floor_div_def
        js_rem_def sl u renderedNode_def js_index_def freshNode_def)
    done
qed

lemma render_pass_effects:
  fixes s :: listview
  defines "count \<equiv> visibleCount (clientHeight s) (itemHeight s)"
  defines "start \<equiv> scrollTop s div itemHeight s"
  defines "item \<equiv> \<lambda>j. if int j + start < int (length (sourceList s))
                        then sourceList s ! nat (int j + start) else Undefined"
  defines "reach \<equiv> min (nat count) (length (slots s))"
  assumes ih: "0 < itemHeight s" and top: "0 \<le> scrollTop s"
  shows "newEffects s (snd (renderList s)) =
           concat (map (\<lambda>j.
               StyleTransform (nid (slots s ! j)) 0
                 (scrollTop s + int j * itemHeight s - scrollTop s mod itemHeight s)
               # (if truthy (item j)
                  then [DatasetIndex (nid (slots s ! j)) (int j + start),
                        RenderHandler (Some (nid (slots s ! j))) (item j) (int j + start)]
                  else []))
             [0..<reach])"
proof -
  let ?vl = "js_slice (sourceList s) start (start + count)"
  have ih0: "itemHeight s \<noteq> 0" using ih by simp
  note cl = renderList_any[OF ih0, unfolded js_floor_div_def js_rem_nonneg[OF top ih],
      folded start_def count_def, folded reach_def]
  have st0: "0 \<le> start"
    using ih top by (simp add: start_def pos_imp_zdiv_nonneg_iff)
  have vl: "js_index ?vl j = item j" if "j < reach" for j
  proof -
    from that have "int j < count" unfolding reach_def by linarith
    from slice_index[OF st0 this, of "sourceList s"] show ?thesis
      by (simp add: item_def add.commute)
  qed
  have "map (\<lambda>j. renderedEffects (itemHeight s) (scrollTop s)
                  (scrollTop s mod itemHeight s) start ?vl j (slots s ! j))
            [0..<reach]
        = map (\<lambda>j.
               StyleTransform (nid (slots s ! j)) 0
                 (scrollTop s + int j * itemHeight s - scrollTop s mod itemHeight s)
               # (if truthy (item j)
                  then [DatasetIndex (nid (slots s ! j)) (int j + start),
                        RenderHandler (Some (nid (slots s ! j))) (item j) (int j + start)]
                  else []))
            [0..<reach]"
    by (rule map_cong) (simp_all add: renderedEffects_def vl)
  then have "concat (map (\<lambda>j. renderedEffects (itemHeight s) (scrollTop s)
                  (scrollTop s mod itemHeight s) start ?vl j (slots s ! j))
            [0..<reach])
        = concat (map (\<lambda>j.
               StyleTransform (nid (slots s ! j)) 0
                 (scrollTop s + int j * itemHeight s - scrollTop s mod itemHeight s)
               # (if truthy (item j)
                  then [DatasetIndex (nid (slots s ! j)) (int j + start),
                        RenderHandler (Some (nid (slots s ! j))) (item j) (int j + start)]
                  else []))
            [0..<reach])"
    by (rule arg_cong)
  then show ?thesis
    by (simp add: cl del: map_eq_conv)
qed


text \<open>
  C3. \<^verbatim>\<open>onScroll\<close> compares the offset of the event with the cached viewport height
  (\<^verbatim>\<open>cachedValue.virtualContainerHeight\<close>, the height read at the last render pass).
  Outside the range the handler returns at once and the whole state is as before, so no
  node is bound, tagged or moved. Inside the range it is one render pass and nothing
  else: the runway and the buffer are as they were, and, with the item height above 0
  and the offset of the event being the scroll offset of the container, the effects
  added are those of a single pass over the nodes the loop reaches, in order: each
  node is moved to \<open>offset + j * itemHeight - offset mod itemHeight\<close> and, when its item is
  in the buffer and truthy, tagged and handed to \<^verbatim>\<open>renderHandler\<close> once, with the index
  \<open>floor(offset / itemHeight) + j\<close>; no effect touches the runway. The nodes the loop
  does not reach stay as they were, and the cached height becomes the container's.
\<close>

theorem onScroll_handler:
  fixes s :: listview and offset :: int
  defines "count \<equiv> visibleCount (clientHeight s) (itemHeight s)"
  defines "start \<equiv> offset div itemHeight s"
  defines "item \<equiv> \<lambda>j. if start + int j < int (length (sourceList s))
                        then sourceList s ! nat (start + int j) else Undefined"
  defines "reach \<equiv> min (nat count) (length (slots s))"
  defines "outside \<equiv> offset < 0
             \<or> offset + virtualContainerHeight s > int (length (sourceList s)) * itemHeight s"
  defines "s' \<equiv> snd (onScroll offset s)"
  shows "(outside \<longrightarrow> onScroll offset s = (Inr (), s))
     \<and> (\<not> outside \<longrightarrow>
           onScroll offset s = renderList s
           \<and> runway s' = runway s \<and> sourceList s' = sourceList s
           \<and> length (slots s') = length (slots s))
     \<and> (\<not> outside \<and> 0 < itemHeight s \<and> scrollTop s = offset \<longrightarrow>
           fst (onScroll offset s)
             = (if count \<le> int (length (slots s)) then Inr () else Inl TypeError)
           \<and> virtualContainerHeight s' = clientHeight s
           \<and> (\<forall>j. j < reach \<longrightarrow>
                 slots s' ! j =
                   (let n = (slots s ! j)\<lparr>transform :=
                              Some (0, offset + int j * itemHeight s - offset mod itemHeight s)\<rparr>
                    in if truthy (item j) then n\<lparr>dataIndex := Some (start + int j)\<rparr> else n))
           \<and> (\<forall>j. reach \<le> j \<and> j < length (slots s) \<longrightarrow> slots s' ! j = slots s ! j)
           \<and> newEffects s s' =
               concat (map (\<lambda>j.
                   StyleTransform (nid (slots s ! j)) 0
                     (offset + int j * itemHeight s - offset mod itemHeight s)
                   # (if truthy (item j)
                      then [DatasetIndex (nid (slots s ! j)) (start + int j),
                            RenderHandler (Some (nid (slots s ! j))) (item j) (start + int j)]
                      else []))
                 [0..<reach]))"
proof -
  have 1: "onScroll offset s = (Inr (), s)" if outside
    using that by (simp add: onScroll_def actualContainerHeight_def outside_def)
  have eq: "onScroll offset s = renderList s" if "\<not> outside"
    using that by (simp add: onScroll_def actualContainerHeight_def outside_def)
  have 2: "runway s' = runway s \<and> sourceList s' = sourceList s
           \<and> length (slots s') = length (slots s)" if "\<not> outside"
    by (simp add: s'_def eq[OF that])
  have 3: "fst (onScroll offset s)
             = (if count \<le> int (length (slots s)) then Inr () else Inl TypeError)
           \<and> virtualContainerHeight s' = clientHeight s
           \<and> (\<forall>j. j < reach \<longrightarrow>
                 slots s' ! j =
                   (let n = (slots s ! j)\<lparr>transform :=
                              Some (0, offset + int j * itemHeight s - offset mod itemHeight s)\<rparr>
                    in if truthy (item j) then n\<lparr>dataIndex := Some (start + int j)\<rparr> else n))
           \<and> (\<forall>j. reach \<le> j \<and> j < length (slots s) \<longrightarrow> slots s' ! j = slots s ! j)
           \<and> newEffects s s' =
               concat (map (\<lambda>j.
                   StyleTransform (nid (slots s ! j)) 0
                     (offset + int j * itemHeight s - offset mod itemHeight s)
                   # (if truthy (item j)
                      then [DatasetIndex (nid (slots s ! j)) (start + int j),
                            RenderHandler (Some (nid (slots s ! j))) (item j) (start + int j)]
                      else []))
                 [0..<reach])"
    if out: "\<not> outside" and ih: "0 < itemHeight s" and off: "scrollTop s = offset"
  proof -
    have top: "0 \<le> scrollTop s"
      using out off by (simp add: outside_def)
    note rp = render_pass[OF ih top, unfolded off, folded count_def start_def,
        folded reach_def]
    note re = render_pass_effects[OF ih top, unfolded off, folded count_def start_def,
        folded reach_def]
    have s': "s' = snd (renderList s)"
      by (simp add: s'_def eq[OF out])
    have a: "fst (onScroll offset s)
             = (if count \<le> int (length (slots s)) then Inr () else Inl TypeError)"
      unfolding eq[OF out] by (rule rp(1))
    have b: "virtualContainerHeight s' = clientHeight s"
      by (simp add: s')
    have c: "slots s' ! j =
                   (let n = (slots s ! j)\<lparr>transform :=
                              Some (0, offset + int j * itemHeight s - offset mod itemHeight s)\<rparr>
                    in if truthy (item j) then n\<lparr>dataIndex := Some (start + int j)\<rparr> else n)"
      if "j < reach" for j
      unfolding s' rp(3)[OF that] by (simp add: item_def add.commute Let_def)
    have d: "slots s' ! j = slots s ! j" if "reach \<le> j" "j < length (slots s)" for j
    proof -
      have "count \<le> int j" using that unfolding reach_def by linarith
      then show ?thesis unfolding s' by (rule rp(4)) (rule that(2))
    qed
    have e: "newEffects s s' =
               concat (map (\<lambda>j.
                   StyleTransform (nid (slots s ! j)) 0
                     (offset + int j * itemHeight s - offset mod itemHeight s)
                   # (if truthy (item j)
                      then [DatasetIndex (nid (slots s ! j)) (start + int j),
                            RenderHandler (Some (nid (slots s ! j))) (item j) (start + int j)]
                      else []))
                 [0..<reach])"
      unfolding s' re by (simp add: item_def add.commute cong: if_cong)
    show ?thesis
      using a b c d e by blast
  qed
  show ?thesis
    using 1 2 3 eq by blast
qed


theorem onScroll_handler_witness:
  "onScroll (- 5) (tenItems\<lparr>scrollTop := - 5\<rparr>) = (Inr (), tenItems\<lparr>scrollTop := - 5\<rparr>)
   \<and> onScroll 200 (tenItems\<lparr>scrollTop := 200\<rparr>) = (Inr (), tenItems\<lparr>scrollTop := 200\<rparr>)
   \<and> fst (onScroll 60 tenItemsScrolled) = Inr ()
   \<and> runway (snd (onScroll 60 tenItemsScrolled)) = runway tenItemsScrolled
   \<and> slots (snd (onScroll 60 tenItemsScrolled)) ! 0
       = \<lparr>nid = 1, transform = Some (0, 48), dataIndex = Some 2\<rparr>
   \<and> newEffects tenItemsScrolled (snd (onScroll 60 tenItemsScrolled))
       = [StyleTransform 1 0 48, DatasetIndex 1 2, RenderHandler (Some 1) (Obj 2) 2,
          StyleTransform 2 0 72, DatasetIndex 2 3, RenderHandler (Some 2) (Obj 3) 3,
          StyleTransform 3 0 96, DatasetIndex 3 4, RenderHandler (Some 3) (Obj 4) 4,
          StyleTransform 4 0 120, DatasetIndex 4 5, RenderHandler (Some 4) (Obj 5) 5,
          StyleTransform 5 0 144, DatasetIndex 5 6, RenderHandler (Some 5) (Obj 6) 6]"
proof -
  have u: "[0..<5] = [0, 1, 2, 3, 4]"
    by (simp add: upt_rec)
  have v: "virtualContainerHeight tenItemsScrolled = 100"
    by (simp add: tenItemsScrolled_def tenItems_def)
  have 1: "onScroll (- 5) (tenItems\<lparr>scrollTop := - 5\<rparr>) = (Inr (), tenItems\<lparr>scrollTop := - 5\<rparr>)"
    using onScroll_handler[where s = "tenItems\<lparr>scrollTop := - 5\<rparr>" and offset = "- 5"]
    by simp
  have 2: "onScroll 200 (tenItems\<lparr>scrollTop := 200\<rparr>) = (Inr (), tenItems\<lparr>scrollTop := 200\<rparr>)"
    using onScroll_handler[where s = "tenItems\<lparr>scrollTop := 200\<rparr>" and offset = 200]
    by (simp add: tenItems_def construct_def)
  note w = onScroll_handler[where s = tenItemsScrolled and offset = 60]
  have nA: "\<not> ((60::int) < 0 \<or> 60 + virtualContainerHeight tenItemsScrolled
                > int (length (sourceList tenItemsScrolled)) * itemHeight tenItemsScrolled)"
    by (simp add: tenItemsScrolled_facts v)
  have B: "0 < itemHeight tenItemsScrolled" and C: "scrollTop tenItemsScrolled = 60"
    by (simp_all add: tenItemsScrolled_facts)
  note y = w[THEN conjunct2, THEN conjunct1, THEN mp, OF nA]
  note z = w[THEN conjunct2, THEN conjunct2, THEN mp, OF conjI[OF nA conjI[OF B C]]]
  have 3: "fst (onScroll 60 tenItemsScrolled) = Inr ()"
    using z[THEN conjunct1] by (simp add: tenItemsScrolled_facts visibleCount_100_24)
  have r3: "runway (snd (onScroll 60 tenItemsScrolled)) = runway tenItemsScrolled"
    using y[THEN conjunct2, THEN conjunct1] .
  have 4: "slots (snd (onScroll 60 tenItemsScrolled)) ! 0
       = \<lparr>nid = 1, transform = Some (0, 48), dataIndex = Some 2\<rparr>"
    using z[THEN conjunct2, THEN conjunct2, THEN conjunct1, rule_format, of 0]
    by (simp add: tenItemsScrolled_facts visibleCount_100_24)
  have 5: "newEffects tenItemsScrolled (snd (onScroll 60 tenItemsScrolled))
       = [StyleTransform 1 0 48, DatasetIndex 1 2, RenderHandler (Some 1) (Obj 2) 2,
          StyleTransform 2 0 72, DatasetIndex 2 3, RenderHandler (Some 2) (Obj 3) 3,
          StyleTransform 3 0 96, DatasetIndex 3 4, RenderHandler (Some 3) (Obj 4) 4,
          StyleTransform 4 0 120, DatasetIndex 4 5, RenderHandler (Some 4) (Obj 5) 5,
          StyleTransform 5 0 144, DatasetIndex 5 6, RenderHandler (Some 5) (Obj 6) 6]"
    unfolding z[THEN conjunct2, THEN conjunct2, THEN conjunct2, THEN conjunct2]
    by (simp add: tenItemsScrolled_facts visibleCount_100_24 u)
       (simp add: tenItemsScrolled_def tenItems_def construct_def)
  show ?thesis
    using 1 2 3 r3 4 5 by simp
qed





lemma render_pass_position:
  assumes "itemHeight s \<noteq> 0"
    and "j < min (nat (visibleCount (clientHeight s) (itemHeight s))) (length (slots s))"
  shows "transform (slots (snd (renderList s)) ! j)
           = Some (0, scrollTop s + int j * itemHeight s - js_rem (scrollTop s) (itemHeight s))"
    and "nid (slots (snd (renderList s)) ! j) = nid (slots s ! j)"
proof -
  have "j < length (slots s)" "int j < visibleCount (clientHeight s) (itemHeight s)"
    using assms(2) by linarith+
  then show "transform (slots (snd (renderList s)) ! j)
           = Some (0, scrollTop s + int j * itemHeight s - js_rem (scrollTop s) (itemHeight s))"
    "nid (slots (snd (renderList s)) ! j) = nid (slots s ! j)"
    by (simp_all add: renderList_any[OF assms(1)] renderedNode_def Let_def)
qed

lemma renderList_effects_extend:
  "effects (snd (renderList s)) = effects s @ newEffects s (snd (renderList s))"
proof -
  obtain sl ef where "snd (renderList s)
      = s\<lparr>virtualContainerHeight := clientHeight s, slots := sl, effects := effects s @ ef\<rparr>"
    using renderList_frame[of s] by blast
  then show ?thesis
    by (simp add: newEffects_def)
qed

lemma newEffects_chain:
  "effects t = effects s @ xs \<Longrightarrow> effects u = effects t @ ys \<Longrightarrow> newEffects s u = xs @ ys"
  by (simp add: newEffects_def)

text \<open>
  C9. \<^verbatim>\<open>updateData(items)\<close>, for an item height other than 0, completes. With
  \<open>count\<close> the visible count, \<open>pool\<close> the item nodes after the two loops (the first old
  node, if any, and \<open>count\<close> new ones) and \<open>top'\<close> the scroll offset after the reset:
  \<^item> the call is a render pass on the stretched state \<open>mid\<close>, in which the buffer is
    \<open>items\<close>; the cached sizes of the runway are those \<^verbatim>\<open>_measureSize\<close> reads when
    \<open>fixedSize\<close> is false, and the old ones when it is true; the cached viewport height
    is the container's height, read by the getter of the visible count; the scroll
    offset is \<open>top'\<close>, which is 0 if the new length is at most the visible count and the
    old offset otherwise, and \<^verbatim>\<open>scrollTo\<close> is called in the first case only; the
    effects so far are the removals, then one call of \<^verbatim>\<open>createHandler\<close> for each of
    \<open>count\<close> new identities, then the append of these nodes, then the scroll reset;
  \<^item> in the state the call leaves, the runway carries the translation
    \<open>(0, length items * itemHeight - runway.clientHeight)\<close>, and every node below
    \<open>count\<close> has been moved to \<open>top' + j * itemHeight - top' % itemHeight\<close>; the nodes
    from \<open>count\<close> on are as in \<open>pool\<close>;
  \<^item> with the item height above 0 and \<open>top' \<ge> 0\<close>, the effects of the whole call are
    those up to \<open>mid\<close>, then the write of the runway's translation, then those of one
    render pass over the nodes below \<open>count\<close>: each is moved and, when its item is in the
    buffer and truthy, tagged and handed to \<^verbatim>\<open>renderHandler\<close> with the index
    \<open>floor(top' / itemHeight) + j\<close>.
  The measuring is the first step of the definition; reading a size writes nothing, so
  its place is not visible in the effects.
\<close>

theorem updateData_outcome:
  fixes s :: listview and items :: "jsval list"
  defines "count \<equiv> visibleCount (clientHeight s) (itemHeight s)"
  defines "ids \<equiv> [nextId s..<nextId s + nat count]"
  defines "reset \<equiv> int (length items) \<le> count"
  defines "pool \<equiv> take 1 (slots s) @ map freshNode ids"
  defines "top' \<equiv> (if reset then 0 else scrollTop s)"
  defines "start \<equiv> top' div itemHeight s"
  defines "item \<equiv> \<lambda>j. if start + int j < int (length items)
                        then items ! nat (start + int j) else Undefined"
  defines "y \<equiv> int (length items) * itemHeight s - runwayClientHeight s"
  defines "before \<equiv> map (\<lambda>n. RemoveChild (nid n)) (rev (drop 1 (slots s)))
            @ map CreateHandler ids @ [Append ids] @ (if reset then [ScrollTo 0] else [])"
  defines "final \<equiv> snd (updateData items s)"
  assumes ih: "itemHeight s \<noteq> 0"
  shows "(\<exists>mid. updateData items s = renderList (stretchList mid)
          \<and> sourceList mid = items
          \<and> (\<not> fixedSize s \<longrightarrow> runwayHeight mid = runwayClientHeight s
                                \<and> runwayWidth mid = runwayClientWidth s)
          \<and> (fixedSize s \<longrightarrow> runwayHeight mid = runwayHeight s
                              \<and> runwayWidth mid = runwayWidth s)
          \<and> virtualContainerHeight mid = clientHeight s
          \<and> scrollTop mid = top'
          \<and> slots mid = pool
          \<and> runway mid = runway s
          \<and> newEffects s mid = before)
      \<and> fst (updateData items s) = Inr ()
      \<and> sourceList final = items
      \<and> runwayHeight final = (if fixedSize s then runwayHeight s else runwayClientHeight s)
      \<and> runwayWidth final = (if fixedSize s then runwayWidth s else runwayClientWidth s)
      \<and> scrollTop final = top'
      \<and> (ScrollTo 0 \<in> set before \<longleftrightarrow> reset)
      \<and> length ids = nat count
      \<and> runway final = (runway s)\<lparr>transform := Some (0, y)\<rparr>
      \<and> length (slots final) = length pool
      \<and> (\<forall>j. int j < count \<longrightarrow>
            nid (slots final ! j) = nid (pool ! j)
            \<and> transform (slots final ! j)
                = Some (0, top' + int j * itemHeight s - js_rem top' (itemHeight s)))
      \<and> (\<forall>j. count \<le> int j \<and> j < length pool \<longrightarrow> slots final ! j = pool ! j)
      \<and> (0 < itemHeight s \<and> 0 \<le> top' \<longrightarrow>
            (\<forall>j. int j < count \<longrightarrow>
               slots final ! j =
                 (let n = (pool ! j)\<lparr>transform :=
                            Some (0, top' + int j * itemHeight s - top' mod itemHeight s)\<rparr>
                  in if truthy (item j) then n\<lparr>dataIndex := Some (start + int j)\<rparr> else n))
            \<and> newEffects s final =
                before @ StyleTransform (nid (runway s)) 0 y #
                concat (map (\<lambda>j.
                   StyleTransform (nid (pool ! j)) 0
                     (top' + int j * itemHeight s - top' mod itemHeight s)
                   # (if truthy (item j)
                      then [DatasetIndex (nid (pool ! j)) (start + int j),
                            RenderHandler (Some (nid (pool ! j))) (item j) (start + int j)]
                      else []))
                 [0..<nat count]))"
proof -
  define mid where "mid = s\<lparr>sourceList := items,
         runwayHeight := (if fixedSize s then runwayHeight s else runwayClientHeight s),
         runwayWidth := (if fixedSize s then runwayWidth s else runwayClientWidth s),
         virtualContainerHeight := clientHeight s,
         slots := pool,
         scrollTop := top',
         nextId := nextId s + nat count,
         effects := effects s @ map (\<lambda>n. RemoveChild (nid n)) (rev (drop 1 (slots s)))
                      @ map CreateHandler ids @ [Append ids]
                      @ (if reset then [ScrollTo 0] else [])\<rparr>"
  define t where "t = stretchList mid"
  have eq: "updateData items s = renderList t"
    using updateData_closed[OF ih, of items]
    by (simp add: t_def mid_def count_def ids_def reset_def pool_def top'_def)
  have fin: "final = snd (renderList t)"
    by (simp add: final_def eq)
  have mf: "sourceList mid = items" "slots mid = pool" "scrollTop mid = top'"
    "virtualContainerHeight mid = clientHeight s" "itemHeight mid = itemHeight s"
    "clientHeight mid = clientHeight s" "runwayClientHeight mid = runwayClientHeight s"
    "runway mid = runway s"
    "runwayHeight mid = (if fixedSize s then runwayHeight s else runwayClientHeight s)"
    "runwayWidth mid = (if fixedSize s then runwayWidth s else runwayClientWidth s)"
    by (simp_all add: mid_def)
  have ne: "newEffects s mid = before"
    by (simp add: newEffects_def mid_def before_def)
  have em: "effects mid = effects s @ before"
    by (simp add: mid_def before_def)
  have tf: "sourceList t = items" "slots t = pool" "scrollTop t = top'"
    "itemHeight t = itemHeight s" "clientHeight t = clientHeight s"
    "runwayHeight t = runwayHeight mid" "runwayWidth t = runwayWidth mid"
    by (simp_all add: t_def mf(1-8))
  have rt: "runway t = (runway s)\<lparr>transform := Some (0, y)\<rparr>"
    by (simp add: t_def stretchList_def emit_def Let_def actualContainerHeight_def mf y_def)
  have et: "effects t = effects s @ (before @ [StyleTransform (nid (runway s)) 0 y])"
    by (simp add: t_def em mf y_def)
  have lp: "length pool = min 1 (length (slots s)) + nat count"
    by (simp add: pool_def ids_def min.commute)
  have reach: "min (nat (visibleCount (clientHeight t) (itemHeight t))) (length (slots t))
                 = nat count"
    by (simp add: tf lp count_def)
  have fits: "visibleCount (clientHeight t) (itemHeight t) \<le> int (length (slots t))"
    by (simp add: tf lp count_def)
  have iht: "itemHeight t \<noteq> 0"
    using ih by (simp add: tf)
  have ok: "fst (updateData items s) = Inr ()"
    unfolding eq using iht fits by (rule renderList_completes)
  have sc: "ScrollTo 0 \<in> set before \<longleftrightarrow> reset"
    unfolding before_def by auto
  have f1: "sourceList final = items" "scrollTop final = top'"
    "runwayHeight final = (if fixedSize s then runwayHeight s else runwayClientHeight s)"
    "runwayWidth final = (if fixedSize s then runwayWidth s else runwayClientWidth s)"
    "runway final = (runway s)\<lparr>transform := Some (0, y)\<rparr>"
    "length (slots final) = length pool"
    by (simp_all add: fin tf rt mf(9,10))
  have pos: "nid (slots final ! j) = nid (pool ! j)
            \<and> transform (slots final ! j)
                = Some (0, top' + int j * itemHeight s - js_rem top' (itemHeight s))"
    if "int j < count" for j
  proof -
    have "j < min (nat (visibleCount (clientHeight t) (itemHeight t))) (length (slots t))"
      unfolding reach using that by linarith
    from render_pass_position[OF iht this] show ?thesis
      by (simp add: fin tf)
  qed
  have keep: "slots final ! j = pool ! j" if "count \<le> int j" "j < length pool" for j
    using that by (simp add: fin renderList_closed[OF iht fits] tf count_def)
  have pass: "(\<forall>j. int j < count \<longrightarrow>
               slots final ! j =
                 (let n = (pool ! j)\<lparr>transform :=
                            Some (0, top' + int j * itemHeight s - top' mod itemHeight s)\<rparr>
                  in if truthy (item j) then n\<lparr>dataIndex := Some (start + int j)\<rparr> else n))
            \<and> newEffects s final =
                before @ StyleTransform (nid (runway s)) 0 y #
                concat (map (\<lambda>j.
                   StyleTransform (nid (pool ! j)) 0
                     (top' + int j * itemHeight s - top' mod itemHeight s)
                   # (if truthy (item j)
                      then [DatasetIndex (nid (pool ! j)) (start + int j),
                            RenderHandler (Some (nid (pool ! j))) (item j) (start + int j)]
                      else []))
                 [0..<nat count])"
    if pos: "0 < itemHeight s" and nn: "0 \<le> top'"
  proof -
    have h: "0 < itemHeight t" "0 \<le> scrollTop t"
      using pos nn by (simp_all add: tf)
    note rp = render_pass(3)[OF h, unfolded reach, unfolded tf, folded start_def fin]
    note re = render_pass_effects[OF h, unfolded reach, unfolded tf, folded start_def fin]
    have a: "slots final ! j =
                 (let n = (pool ! j)\<lparr>transform :=
                            Some (0, top' + int j * itemHeight s - top' mod itemHeight s)\<rparr>
                  in if truthy (item j) then n\<lparr>dataIndex := Some (start + int j)\<rparr> else n)"
      if "int j < count" for j
    proof -
      have "j < nat count" using that by linarith
      from rp[OF this] show ?thesis
        by (simp add: item_def add.commute Let_def)
    qed
    have "effects final = effects t @ newEffects t final"
      unfolding fin by (rule renderList_effects_extend)
    from newEffects_chain[OF et this]
    have "newEffects s final
            = (before @ [StyleTransform (nid (runway s)) 0 y]) @ newEffects t final"
      .
    then have b: "newEffects s final =
                before @ StyleTransform (nid (runway s)) 0 y #
                concat (map (\<lambda>j.
                   StyleTransform (nid (pool ! j)) 0
                     (top' + int j * itemHeight s - top' mod itemHeight s)
                   # (if truthy (item j)
                      then [DatasetIndex (nid (pool ! j)) (start + int j),
                            RenderHandler (Some (nid (pool ! j))) (item j) (start + int j)]
                      else []))
                 [0..<nat count])"
      unfolding re by (simp add: item_def add.commute cong: if_cong)
    show ?thesis
      using a b by blast
  qed
  have li: "length ids = nat count"
    by (simp add: ids_def)
  have eq': "updateData items s = renderList (stretchList mid)"
    using eq by (simp add: t_def)
  have ex: "\<exists>mid. updateData items s = renderList (stretchList mid)
          \<and> sourceList mid = items
          \<and> (\<not> fixedSize s \<longrightarrow> runwayHeight mid = runwayClientHeight s
                                \<and> runwayWidth mid = runwayClientWidth s)
          \<and> (fixedSize s \<longrightarrow> runwayHeight mid = runwayHeight s
                              \<and> runwayWidth mid = runwayWidth s)
          \<and> virtualContainerHeight mid = clientHeight s
          \<and> scrollTop mid = top'
          \<and> slots mid = pool
          \<and> runway mid = runway s
          \<and> newEffects s mid = before"
    apply (rule exI[of _ mid])
    using eq' ne by (simp add: mf)
  show ?thesis
    using ex ok f1 sc li pos keep pass
    apply (intro conjI)
                apply blast+
    done
qed

theorem updateData_outcome_witness:
  "fst (updateData [Obj 11, Obj 12] scrolledMeasured) = Inr ()
   \<and> sourceList (snd (updateData [Obj 11, Obj 12] scrolledMeasured)) = [Obj 11, Obj 12]
   \<and> runwayHeight (snd (updateData [Obj 11, Obj 12] scrolledMeasured)) = 1
   \<and> scrollTop scrolledMeasured = 60
   \<and> scrollTop (snd (updateData [Obj 11, Obj 12] scrolledMeasured)) = 0
   \<and> runway (snd (updateData [Obj 11, Obj 12] scrolledMeasured))
       = \<lparr>nid = 0, transform = Some (0, 47), dataIndex = None\<rparr>
   \<and> length (slots (snd (updateData [Obj 11, Obj 12] scrolledMeasured))) = 6
   \<and> slots (snd (updateData [Obj 11, Obj 12] scrolledMeasured)) ! 1
       = \<lparr>nid = 6, transform = Some (0, 24), dataIndex = Some 1\<rparr>
   \<and> slots (snd (updateData [Obj 11, Obj 12] scrolledMeasured)) ! 2
       = \<lparr>nid = 7, transform = Some (0, 48), dataIndex = None\<rparr>
   \<and> slots (snd (updateData [Obj 11, Obj 12] scrolledMeasured)) ! 5
       = \<lparr>nid = 10, transform = None, dataIndex = None\<rparr>
   \<and> newEffects scrolledMeasured (snd (updateData [Obj 11, Obj 12] scrolledMeasured))
       = [RemoveChild 5, RemoveChild 4, RemoveChild 3, RemoveChild 2,
          CreateHandler 6, CreateHandler 7, CreateHandler 8, CreateHandler 9, CreateHandler 10,
          Append [6, 7, 8, 9, 10], ScrollTo 0,
          StyleTransform 0 0 47,
          StyleTransform 1 0 0, DatasetIndex 1 0, RenderHandler (Some 1) (Obj 11) 0,
          StyleTransform 6 0 24, DatasetIndex 6 1, RenderHandler (Some 6) (Obj 12) 1,
          StyleTransform 7 0 48, StyleTransform 8 0 72, StyleTransform 9 0 96]
   \<and> scrollTop (snd (updateData [Obj 20, Obj 21, Obj 22, Obj 23, Obj 24, Obj 25]
                       scrolledMeasured)) = 60
   \<and> runway (snd (updateData [Obj 20, Obj 21, Obj 22, Obj 23, Obj 24, Obj 25]
                       scrolledMeasured))
       = \<lparr>nid = 0, transform = Some (0, 143), dataIndex = None\<rparr>
   \<and> slots (snd (updateData [Obj 20, Obj 21, Obj 22, Obj 23, Obj 24, Obj 25]
                       scrolledMeasured)) ! 0
       = \<lparr>nid = 1, transform = Some (0, 48), dataIndex = Some 2\<rparr>
   \<and> runwayHeight (snd (updateData [Obj 11, Obj 12] (scrolledMeasured\<lparr>fixedSize := True\<rparr>)))
       = 0"
proof -
  have f: "itemHeight scrolledMeasured = 24" "clientHeight scrolledMeasured = 100"
    "fixedSize scrolledMeasured = False" "runwayClientHeight scrolledMeasured = 1"
    "runwayHeight scrolledMeasured = 0" "scrollTop scrolledMeasured = 60"
    "nextId scrolledMeasured = 6"
    "runway scrolledMeasured = \<lparr>nid = 0, transform = Some (0, 240), dataIndex = None\<rparr>"
    "slots scrolledMeasured
       = [\<lparr>nid = 1, transform = Some (0, 0), dataIndex = Some 0\<rparr>,
          \<lparr>nid = 2, transform = Some (0, 24), dataIndex = Some 1\<rparr>,
          \<lparr>nid = 3, transform = Some (0, 48), dataIndex = Some 2\<rparr>,
          \<lparr>nid = 4, transform = Some (0, 72), dataIndex = Some 3\<rparr>,
          \<lparr>nid = 5, transform = Some (0, 96), dataIndex = Some 4\<rparr>]"
    by (simp_all add: scrolledMeasured_def tenItemsMeasured_def tenItems_def construct_def)
  have u: "[6..<11] = [6, 7, 8, 9, 10]" "[0..<5] = [0, 1, 2, 3, 4]"
    by (simp_all add: upt_rec)
  have ih: "itemHeight scrolledMeasured \<noteq> 0"
    "itemHeight (scrolledMeasured\<lparr>fixedSize := True\<rparr>) \<noteq> 0"
    by (simp_all add: f)
  note a = updateData_outcome[OF ih(1), of "[Obj 11, Obj 12]", THEN conjunct2]
  note b = updateData_outcome[OF ih(1), of "[Obj 20, Obj 21, Obj 22, Obj 23, Obj 24, Obj 25]",
      THEN conjunct2]
  note c = updateData_outcome[OF ih(2), of "[Obj 11, Obj 12]", THEN conjunct2]
  note a2 = a[THEN conjunct2]
  note a3 = a2[THEN conjunct2]
  note a5 = a3[THEN conjunct2, THEN conjunct2]
  note a8 = a5[THEN conjunct2, THEN conjunct2, THEN conjunct2]
  note a9 = a8[THEN conjunct2]
  note a12 = a9[THEN conjunct2, THEN conjunct2, THEN conjunct2]
  have pa: "0 < itemHeight scrolledMeasured
      \<and> 0 \<le> (if int (length [Obj 11, Obj 12])
                  \<le> visibleCount (clientHeight scrolledMeasured) (itemHeight scrolledMeasured)
             then 0 else scrollTop scrolledMeasured)"
    by (simp add: f visibleCount_100_24)
  note a12' = a12[THEN mp, OF pa]
  have 1: "fst (updateData [Obj 11, Obj 12] scrolledMeasured) = Inr ()"
    by (rule a[THEN conjunct1])
  have 2: "sourceList (snd (updateData [Obj 11, Obj 12] scrolledMeasured)) = [Obj 11, Obj 12]"
    by (rule a2[THEN conjunct1])
  have 3: "runwayHeight (snd (updateData [Obj 11, Obj 12] scrolledMeasured)) = 1"
    using a3[THEN conjunct1] by (simp add: f)
  have 4: "scrollTop (snd (updateData [Obj 11, Obj 12] scrolledMeasured)) = 0"
    using a5[THEN conjunct1] by (simp add: f visibleCount_100_24)
  have 5: "runway (snd (updateData [Obj 11, Obj 12] scrolledMeasured))
       = \<lparr>nid = 0, transform = Some (0, 47), dataIndex = None\<rparr>"
    using a8[THEN conjunct1] by (simp add: f)
  have 6: "length (slots (snd (updateData [Obj 11, Obj 12] scrolledMeasured))) = 6"
    using a9[THEN conjunct1] by (simp add: f visibleCount_100_24)
  have 7: "slots (snd (updateData [Obj 11, Obj 12] scrolledMeasured)) ! 1
       = \<lparr>nid = 6, transform = Some (0, 24), dataIndex = Some 1\<rparr>"
    using a12'[THEN conjunct1, rule_format, of 1]
    by (simp add: f visibleCount_100_24 u freshNode_def Let_def)
  have 8: "slots (snd (updateData [Obj 11, Obj 12] scrolledMeasured)) ! 2
       = \<lparr>nid = 7, transform = Some (0, 48), dataIndex = None\<rparr>"
    using a12'[THEN conjunct1, rule_format, of 2]
    by (simp add: f visibleCount_100_24 u freshNode_def Let_def)
  have 9: "slots (snd (updateData [Obj 11, Obj 12] scrolledMeasured)) ! 5
       = \<lparr>nid = 10, transform = None, dataIndex = None\<rparr>"
    using a9[THEN conjunct2, THEN conjunct2, THEN conjunct1, rule_format, of 5]
    by (simp add: f visibleCount_100_24 u freshNode_def)
  have 10: "newEffects scrolledMeasured (snd (updateData [Obj 11, Obj 12] scrolledMeasured))
       = [RemoveChild 5, RemoveChild 4, RemoveChild 3, RemoveChild 2,
          CreateHandler 6, CreateHandler 7, CreateHandler 8, CreateHandler 9, CreateHandler 10,
          Append [6, 7, 8, 9, 10], ScrollTo 0,
          StyleTransform 0 0 47,
          StyleTransform 1 0 0, DatasetIndex 1 0, RenderHandler (Some 1) (Obj 11) 0,
          StyleTransform 6 0 24, DatasetIndex 6 1, RenderHandler (Some 6) (Obj 12) 1,
          StyleTransform 7 0 48, StyleTransform 8 0 72, StyleTransform 9 0 96]"
    using a12'[THEN conjunct2]
    by (simp add: f visibleCount_100_24 u freshNode_def)
  note b5 = b[THEN conjunct2, THEN conjunct2, THEN conjunct2, THEN conjunct2]
  note b8 = b5[THEN conjunct2, THEN conjunct2, THEN conjunct2]
  note b12 = b8[THEN conjunct2, THEN conjunct2, THEN conjunct2, THEN conjunct2]
  have pb: "0 < itemHeight scrolledMeasured
      \<and> 0 \<le> (if int (length [Obj 20, Obj 21, Obj 22, Obj 23, Obj 24, Obj 25])
                  \<le> visibleCount (clientHeight scrolledMeasured) (itemHeight scrolledMeasured)
             then 0 else scrollTop scrolledMeasured)"
    by (simp add: f visibleCount_100_24)
  have 11: "scrollTop (snd (updateData [Obj 20, Obj 21, Obj 22, Obj 23, Obj 24, Obj 25]
                       scrolledMeasured)) = 60"
    using b5[THEN conjunct1] by (simp add: f visibleCount_100_24)
  have 12: "runway (snd (updateData [Obj 20, Obj 21, Obj 22, Obj 23, Obj 24, Obj 25]
                       scrolledMeasured))
       = \<lparr>nid = 0, transform = Some (0, 143), dataIndex = None\<rparr>"
    using b8[THEN conjunct1] by (simp add: f)
  have 13: "slots (snd (updateData [Obj 20, Obj 21, Obj 22, Obj 23, Obj 24, Obj 25]
                       scrolledMeasured)) ! 0
       = \<lparr>nid = 1, transform = Some (0, 48), dataIndex = Some 2\<rparr>"
    using b12[THEN mp, OF pb, THEN conjunct1, rule_format, of 0]
    by (simp add: f visibleCount_100_24 Let_def)
  have 14: "runwayHeight (snd (updateData [Obj 11, Obj 12]
                (scrolledMeasured\<lparr>fixedSize := True\<rparr>))) = 0"
    using c[THEN conjunct2, THEN conjunct2, THEN conjunct1] by (simp add: f)
  show ?thesis
    using 1 2 3 f(6) 4 5 6 7 8 9 10 11 12 13 14 by simp
qed

end
